theory Spec2Isabelle
  imports Complex_Main "HOL-Library.Product_Lexorder" "HOL-Library.Multiset"
begin

section \<open>Data model of simulador\_motor.py\<close>

text \<open>
  The engine keeps Python objects that are shared between queues, partitions and the
  report list.  An object of class \<open>Proceso\<close> is identified here by its position in
  \<open>todos_procesos\<close> (the list handed to the constructor), and an object of class
  \<open>Particion\<close> by its position in \<open>particiones\<close>; every queue holds such positions.
  The field \<open>estado\<close> holds one of five string constants in the source.
\<close>

datatype estado_t = NUEVO | L_S | LISTO | EJECUCION | TERMINADO

datatype error = TypeError | IndexError | ZeroDivisionError

record proceso =
  id_proceso :: int
  tamano :: int
  t_arribo :: int
  t_irrupcion :: int
  estado :: estado_t
  t_restante :: int
  id_particion :: "nat option"
  t_fin :: int
  t_primera_ejecucion :: int
  t_llegada_listo :: int

definition Proceso :: "int \<Rightarrow> int \<Rightarrow> int \<Rightarrow> int \<Rightarrow> proceso" where
  "Proceso i tam ta ti =
     \<lparr>id_proceso = i, tamano = tam, t_arribo = ta, t_irrupcion = ti, estado = NUEVO,
      t_restante = ti, id_particion = None, t_fin = - 1, t_primera_ejecucion = - 1,
      t_llegada_listo = - 1\<rparr>"

record particion =
  id_part :: nat
  tamano_part :: int
  es_so :: bool
  base :: int
  proceso_asignado :: "nat option"

definition Particion :: "nat \<Rightarrow> int \<Rightarrow> bool \<Rightarrow> int \<Rightarrow> particion" where
  "Particion i tam so b =
     \<lparr>id_part = i, tamano_part = tam, es_so = so, base = b, proceso_asignado = None\<rparr>"

text \<open>
  The events of a tick are formatted strings in the source; an event here carries the
  data the string is formatted from (processes and partitions by position, except the
  list of rejected arrivals, which the source computes on the printed identifiers).
\<close>

datatype evento =
    Arriban "nat list"
  | No_cabe nat
  | Termina nat nat
  | Arriban_al_sistema "nat list"
  | Arriban_gdm_lleno "int list"
  | Admision nat nat int
  | Swap nat nat nat
  | Inicia nat
  | Desalojo nat nat

record simulador =
  reloj :: int
  eventos_del_tick :: "evento list"
  todos_procesos :: "proceso list"
  procesos_nuevos :: "nat list"
  cola_listos :: "nat list"
  cola_listos_suspendidos :: "nat list"
  proceso_en_ejecucion :: "nat option"
  procesos_terminados :: "nat list"
  procesos_reporte :: "nat list"
  particiones :: "particion list"

abbreviation proc :: "simulador \<Rightarrow> nat \<Rightarrow> proceso" where
  "proc s r \<equiv> todos_procesos s ! r"

definition modificar :: "nat \<Rightarrow> (proceso \<Rightarrow> proceso) \<Rightarrow> simulador \<Rightarrow> simulador" where
  "modificar r f s = s\<lparr>todos_procesos := (todos_procesos s)[r := f (proc s r)]\<rparr>"

definition evento_nuevo :: "evento \<Rightarrow> simulador \<Rightarrow> simulador" where
  "evento_nuevo e s = s\<lparr>eventos_del_tick := eventos_del_tick s @ [e]\<rparr>"

subsection \<open>Particion\<close>

definition esta_libre :: "particion \<Rightarrow> bool" where
  "esta_libre p = (proceso_asignado p = None \<and> \<not> es_so p)"

definition fragmentacion_interna :: "simulador \<Rightarrow> particion \<Rightarrow> int" where
  "fragmentacion_interna s p =
     (case proceso_asignado p of
        Some r \<Rightarrow> tamano_part p - tamano (proc s r)
      | None \<Rightarrow> 0)"

text \<open>\<open>asignar_proceso\<close> returns a flag that no caller reads; the model returns the state.\<close>

definition asignar_proceso :: "nat \<Rightarrow> nat \<Rightarrow> simulador \<Rightarrow> simulador" where
  "asignar_proceso k r s =
     (let p = particiones s ! k in
      if esta_libre p \<and> tamano (proc s r) \<le> tamano_part p
      then modificar r (\<lambda>q. q\<lparr>id_particion := Some (id_part p)\<rparr>)
             (s\<lparr>particiones := (particiones s)[k := p\<lparr>proceso_asignado := Some r\<rparr>]\<rparr>)
      else s)"

definition liberar_particion :: "nat \<Rightarrow> simulador \<Rightarrow> simulador" where
  "liberar_particion k s =
     (let p = particiones s ! k;
          s1 = (case proceso_asignado p of
                  Some r \<Rightarrow> modificar r (\<lambda>q. q\<lparr>id_particion := None\<rparr>) s
                | None \<Rightarrow> s)
      in s1\<lparr>particiones := (particiones s1)[k := p\<lparr>proceso_asignado := None\<rparr>]\<rparr>)"

text \<open>
  \<open>self.particiones[p.id_particion]\<close>: a \<open>None\<close> index raises TypeError, an index past
  the end raises IndexError.  Partition identifiers are never negative.
\<close>

definition particion_de :: "simulador \<Rightarrow> nat \<Rightarrow> error + nat" where
  "particion_de s r =
     (case id_particion (proc s r) of
        None \<Rightarrow> Inl TypeError
      | Some k \<Rightarrow> if k < length (particiones s) then Inr k else Inl IndexError)"

subsection \<open>Helpers of the engine\<close>

definition cabe_en_alguna_particion :: "simulador \<Rightarrow> nat \<Rightarrow> bool" where
  "cabe_en_alguna_particion s r =
     list_ex (\<lambda>p. \<not> es_so p \<and> tamano (proc s r) \<le> tamano_part p) (particiones s)"

text \<open>
  Best-Fit.  The accumulator pairs \<open>mejor\<close> with \<open>menor_fi\<close>; \<open>None\<close> stands for the
  initial \<open>(None, inf)\<close>, the two being assigned together.
\<close>

definition mejor_paso :: "particion list \<Rightarrow> int \<Rightarrow> (nat \<times> int) option \<Rightarrow> nat \<Rightarrow> (nat \<times> int) option" where
  "mejor_paso ps tam acc k =
     (let part = ps ! k in
      if esta_libre part \<and> tam \<le> tamano_part part
      then (let fi = tamano_part part - tam in
            case acc of
              None \<Rightarrow> Some (k, fi)
            | Some (mejor, menor_fi) \<Rightarrow>
                if fi < menor_fi \<or> (fi = menor_fi \<and> tamano_part part < tamano_part (ps ! mejor))
                then Some (k, fi) else acc)
      else acc)"

definition encontrar_mejor_particion :: "simulador \<Rightarrow> nat \<Rightarrow> nat list \<Rightarrow> nat option" where
  "encontrar_mejor_particion s r ks =
     map_option fst (foldl (mejor_paso (particiones s) (tamano (proc s r))) None ks)"

definition clave_srtf :: "simulador \<Rightarrow> nat \<Rightarrow> int \<times> int \<times> int" where
  "clave_srtf s r = (t_restante (proc s r), t_llegada_listo (proc s r), id_proceso (proc s r))"

definition clave_ls :: "simulador \<Rightarrow> nat \<Rightarrow> int \<times> int" where
  "clave_ls s r = (t_restante (proc s r), id_proceso (proc s r))"

definition clave_arribo :: "proceso list \<Rightarrow> nat \<Rightarrow> int \<times> int" where
  "clave_arribo ps r = (t_arribo (ps ! r), id_proceso (ps ! r))"

text \<open>Sorts \<open>cola_listos\<close> in place and returns its head, or nothing on an empty queue.\<close>

definition encontrar_proceso_srtf :: "simulador \<Rightarrow> simulador \<times> nat option" where
  "encontrar_proceso_srtf s =
     (if cola_listos s = [] then (s, None)
      else (let s1 = s\<lparr>cola_listos := sort_key (clave_srtf s) (cola_listos s)\<rparr>
            in (s1, Some (hd (cola_listos s1)))))"

subsection \<open>Construction\<close>

definition reiniciar :: "proceso \<Rightarrow> proceso" where
  "reiniciar p =
     p\<lparr>estado := NUEVO, t_restante := t_irrupcion p, id_particion := None, t_fin := - 1,
       t_primera_ejecucion := - 1, t_llegada_listo := - 1\<rparr>"

primrec reiniciar_todos :: "nat list \<Rightarrow> proceso list \<Rightarrow> proceso list" where
  "reiniciar_todos [] ps = ps"
| "reiniciar_todos (r # rs) ps = reiniciar_todos rs (ps[r := reiniciar (ps ! r)])"

definition preparar_colas :: "simulador \<Rightarrow> simulador" where
  "preparar_colas s =
     (let candidatos = sort_key (clave_arribo (todos_procesos s)) [0..<length (todos_procesos s)];
          seleccion = take 10 candidatos
      in s\<lparr>todos_procesos := reiniciar_todos seleccion (todos_procesos s),
           procesos_nuevos := seleccion,
           procesos_reporte := seleccion\<rparr>)"

subsection \<open>Admission into memory and swap\<close>

definition procesos_en_memoria :: "simulador \<Rightarrow> nat" where
  "procesos_en_memoria s =
     length (cola_listos s) + (if proceso_en_ejecucion s = None then 0 else 1)"

definition libres :: "simulador \<Rightarrow> nat list" where
  "libres s = filter (\<lambda>k. esta_libre (particiones s ! k)) [0..<length (particiones s)]"

definition posibles_victimas :: "simulador \<Rightarrow> nat list" where
  "posibles_victimas s =
     cola_listos s @ (case proceso_en_ejecucion s of None \<Rightarrow> [] | Some r \<Rightarrow> [r])"

primrec victimas_validas :: "simulador \<Rightarrow> nat \<Rightarrow> nat list \<Rightarrow> error + nat list" where
  "victimas_validas s c [] = Inr []"
| "victimas_validas s c (v # vs) =
     (case particion_de s v of
        Inl e \<Rightarrow> Inl e
      | Inr k \<Rightarrow>
          (case victimas_validas s c vs of
             Inl e \<Rightarrow> Inl e
           | Inr ws \<Rightarrow>
               Inr (if tamano (proc s c) \<le> tamano_part (particiones s ! k) then v # ws else ws)))"

text \<open>Python's \<open>max(xs, key=f)\<close> keeps the first element whose key is maximal.\<close>

primrec max_key :: "('a \<Rightarrow> 'k::linorder) \<Rightarrow> 'a \<Rightarrow> 'a list \<Rightarrow> 'a" where
  "max_key f m [] = m"
| "max_key f m (x # xs) = max_key f (if f m < f x then x else m) xs"

definition admitir :: "nat \<Rightarrow> nat \<Rightarrow> simulador \<Rightarrow> simulador" where
  "admitir c k s =
     (let s1 = s\<lparr>cola_listos_suspendidos := remove1 c (cola_listos_suspendidos s)\<rparr>;
          s2 = asignar_proceso k c s1;
          s3 = modificar c (\<lambda>q. q\<lparr>estado := LISTO, t_llegada_listo := reloj s2\<rparr>) s2;
          s4 = s3\<lparr>cola_listos := cola_listos s3 @ [c]\<rparr>
      in evento_nuevo (Admision c k (fragmentacion_interna s4 (particiones s4 ! k))) s4)"

definition ejecutar_swap :: "nat \<Rightarrow> nat \<Rightarrow> nat \<Rightarrow> simulador \<Rightarrow> simulador" where
  "ejecutar_swap c v k s =
     (let s1 = (if proceso_en_ejecucion s = Some v
                then s\<lparr>proceso_en_ejecucion := None\<rparr>
                else s\<lparr>cola_listos := remove1 v (cola_listos s)\<rparr>);
          s2 = modificar v (\<lambda>q. q\<lparr>estado := L_S, id_particion := None\<rparr>) s1;
          s3 = liberar_particion k s2;
          s4 = s3\<lparr>cola_listos_suspendidos := cola_listos_suspendidos s3 @ [v]\<rparr>;
          s5 = s4\<lparr>cola_listos_suspendidos := remove1 c (cola_listos_suspendidos s4)\<rparr>;
          s6 = asignar_proceso k c s5;
          s7 = modificar c (\<lambda>q. q\<lparr>estado := LISTO, t_llegada_listo := reloj s6\<rparr>) s6;
          s8 = s7\<lparr>cola_listos := cola_listos s7 @ [c]\<rparr>
      in evento_nuevo (Swap v c k) s8)"

text \<open>
  One run of the \<open>for candidato in list(self.cola_listos_suspendidos)\<close> loop: the first
  candidate for which a placement or a swap happens ends the run (\<open>break\<close>); the result
  is the change made and the new state, or \<open>None\<close> when no candidate changes anything.
  The two \<open>remove\<close> calls of the source act on an element just read from the same queue.
\<close>

datatype cambio = Colocado nat nat | Intercambiado nat nat nat

fun pase :: "simulador \<Rightarrow> nat list \<Rightarrow> error + (cambio \<times> simulador) option" where
  "pase s [] = Inr None"
| "pase s (candidato # resto) =
     (if procesos_en_memoria s < 3 \<and> libres s \<noteq> [] then
        (case encontrar_mejor_particion s candidato (libres s) of
           Some mejor_part \<Rightarrow> Inr (Some (Colocado candidato mejor_part, admitir candidato mejor_part s))
         | None \<Rightarrow> pase s resto)
      else if procesos_en_memoria s = 3 then
        (case victimas_validas s candidato (posibles_victimas s) of
           Inl e \<Rightarrow> Inl e
         | Inr [] \<Rightarrow> pase s resto
         | Inr (v # vs) \<Rightarrow>
             (let victima = max_key (clave_ls s) v vs in
              if t_restante (proc s candidato) < t_restante (proc s victima) then
                (case particion_de s victima of
                   Inl e \<Rightarrow> Inl e
                 | Inr k \<Rightarrow>
                     Inr (Some (Intercambiado victima candidato k, ejecutar_swap candidato victima k s)))
              else pase s resto))
      else pase s resto)"

definition ordenar_ls :: "simulador \<Rightarrow> simulador" where
  "ordenar_ls s =
     s\<lparr>cola_listos_suspendidos := sort_key (clave_ls s) (cola_listos_suspendidos s)\<rparr>"

function intentar_admision :: "simulador \<Rightarrow> error + simulador" where
  "intentar_admision s =
     (case pase (ordenar_ls s) (cola_listos_suspendidos (ordenar_ls s)) of
        Inl e \<Rightarrow> Inl e
      | Inr None \<Rightarrow> Inr (ordenar_ls s)
      | Inr (Some (c, s2)) \<Rightarrow> intentar_admision s2)"
  by pat_completeness auto

subsection \<open>Field access after the basic operations\<close>

lemma nth_actualizado: "xs[i := x] ! j = (if i = j \<and> i < length xs then x else xs ! j)"
  by (cases "i < length xs") (auto simp: nth_list_update list_update_beyond)

lemma modificar_campos [simp]:
  "reloj (modificar r f s) = reloj s"
  "eventos_del_tick (modificar r f s) = eventos_del_tick s"
  "procesos_nuevos (modificar r f s) = procesos_nuevos s"
  "cola_listos (modificar r f s) = cola_listos s"
  "cola_listos_suspendidos (modificar r f s) = cola_listos_suspendidos s"
  "proceso_en_ejecucion (modificar r f s) = proceso_en_ejecucion s"
  "procesos_terminados (modificar r f s) = procesos_terminados s"
  "procesos_reporte (modificar r f s) = procesos_reporte s"
  "particiones (modificar r f s) = particiones s"
  "length (todos_procesos (modificar r f s)) = length (todos_procesos s)"
  by (simp_all add: modificar_def)

lemma evento_nuevo_campos [simp]:
  "reloj (evento_nuevo e s) = reloj s"
  "eventos_del_tick (evento_nuevo e s) = eventos_del_tick s @ [e]"
  "procesos_nuevos (evento_nuevo e s) = procesos_nuevos s"
  "cola_listos (evento_nuevo e s) = cola_listos s"
  "cola_listos_suspendidos (evento_nuevo e s) = cola_listos_suspendidos s"
  "proceso_en_ejecucion (evento_nuevo e s) = proceso_en_ejecucion s"
  "procesos_terminados (evento_nuevo e s) = procesos_terminados s"
  "procesos_reporte (evento_nuevo e s) = procesos_reporte s"
  "particiones (evento_nuevo e s) = particiones s"
  "todos_procesos (evento_nuevo e s) = todos_procesos s"
  by (simp_all add: evento_nuevo_def)

lemma asignar_proceso_campos [simp]:
  "reloj (asignar_proceso k r s) = reloj s"
  "eventos_del_tick (asignar_proceso k r s) = eventos_del_tick s"
  "procesos_nuevos (asignar_proceso k r s) = procesos_nuevos s"
  "cola_listos (asignar_proceso k r s) = cola_listos s"
  "cola_listos_suspendidos (asignar_proceso k r s) = cola_listos_suspendidos s"
  "proceso_en_ejecucion (asignar_proceso k r s) = proceso_en_ejecucion s"
  "procesos_terminados (asignar_proceso k r s) = procesos_terminados s"
  "procesos_reporte (asignar_proceso k r s) = procesos_reporte s"
  by (simp_all add: asignar_proceso_def Let_def)

lemma liberar_particion_campos [simp]:
  "reloj (liberar_particion k s) = reloj s"
  "eventos_del_tick (liberar_particion k s) = eventos_del_tick s"
  "procesos_nuevos (liberar_particion k s) = procesos_nuevos s"
  "cola_listos (liberar_particion k s) = cola_listos s"
  "cola_listos_suspendidos (liberar_particion k s) = cola_listos_suspendidos s"
  "proceso_en_ejecucion (liberar_particion k s) = proceso_en_ejecucion s"
  "procesos_terminados (liberar_particion k s) = procesos_terminados s"
  "procesos_reporte (liberar_particion k s) = procesos_reporte s"
  by (simp_all add: liberar_particion_def Let_def split: option.splits)

text \<open>The fields of a process that no operation of the admission stage changes.\<close>

definition datos :: "proceso \<Rightarrow> int \<times> int \<times> int \<times> int \<times> int" where
  "datos p = (id_proceso p, tamano p, t_arribo p, t_irrupcion p, t_restante p)"

lemma datos_campos [simp]:
  "datos (p\<lparr>estado := e\<rparr>) = datos p"
  "datos (p\<lparr>id_particion := i\<rparr>) = datos p"
  "datos (p\<lparr>t_fin := t\<rparr>) = datos p"
  "datos (p\<lparr>t_primera_ejecucion := t\<rparr>) = datos p"
  "datos (p\<lparr>t_llegada_listo := t\<rparr>) = datos p"
  by (simp_all add: datos_def)

lemma datos_iguales:
  "datos p = datos q \<Longrightarrow>
     id_proceso p = id_proceso q \<and> tamano p = tamano q \<and> t_arribo p = t_arribo q \<and>
     t_irrupcion p = t_irrupcion q \<and> t_restante p = t_restante q"
  by (simp add: datos_def)

lemma proc_modificar:
  "proc (modificar r f s) q = (if r = q \<and> r < length (todos_procesos s) then f (proc s q) else proc s q)"
  by (simp add: modificar_def nth_actualizado)

lemma datos_modificar [simp]:
  "(\<And>p. datos (f p) = datos p) \<Longrightarrow> datos (proc (modificar r f s) q) = datos (proc s q)"
  by (simp add: proc_modificar)

lemma datos_asignar [simp]: "datos (proc (asignar_proceso k r s) q) = datos (proc s q)"
  by (simp add: asignar_proceso_def Let_def)

lemma datos_liberar [simp]: "datos (proc (liberar_particion k s) q) = datos (proc s q)"
  by (simp add: liberar_particion_def Let_def split: option.splits)

lemma datos_admitir [simp]: "datos (proc (admitir c k s) q) = datos (proc s q)"
  by (simp add: admitir_def Let_def)

lemma datos_ejecutar_swap [simp]: "datos (proc (ejecutar_swap c v k s) q) = datos (proc s q)"
  by (simp add: ejecutar_swap_def Let_def)

subsection \<open>The admission loop terminates\<close>

text \<open>
  A placement shortens the suspended queue.  A swap keeps its length and replaces a
  resident by a process of strictly smaller remaining time, which lowers the sum over
  the residents of the number of processes with a smaller remaining time.
\<close>

lemma victimas_validas_subset:
  "victimas_validas s c xs = Inr ws \<Longrightarrow> set ws \<subseteq> set xs"
  by (induction xs arbitrary: ws) (auto split: sum.splits if_splits)

lemma max_key_in: "max_key f m xs \<in> set (m # xs)"
  by (induction xs arbitrary: m) (auto split: if_splits)

lemma pase_Colocado:
  "pase s cs = Inr (Some (Colocado c k, s')) \<Longrightarrow>
     c \<in> set cs \<and> s' = admitir c k s \<and> procesos_en_memoria s < 3 \<and> libres s \<noteq> [] \<and>
     encontrar_mejor_particion s c (libres s) = Some k"
  by (induction cs) (auto simp: Let_def split: if_splits option.splits sum.splits list.splits)

lemma pase_Intercambiado:
  "pase s cs = Inr (Some (Intercambiado v c k, s')) \<Longrightarrow>
     c \<in> set cs \<and> s' = ejecutar_swap c v k s \<and> procesos_en_memoria s = 3 \<and>
     (\<exists>v0 vs. victimas_validas s c (posibles_victimas s) = Inr (v0 # vs) \<and>
        v = max_key (clave_ls s) v0 vs) \<and>
     t_restante (proc s c) < t_restante (proc s v) \<and> particion_de s v = Inr k"
  by (induction cs) (auto simp: Let_def split: if_splits option.splits sum.splits list.splits)

lemma pase_victima_residente:
  assumes "pase s cs = Inr (Some (Intercambiado v c k, s'))"
  shows "v \<in> set (posibles_victimas s)"
proof -
  from pase_Intercambiado[OF assms] obtain v0 vs where
    vv: "victimas_validas s c (posibles_victimas s) = Inr (v0 # vs)" and v: "v = max_key (clave_ls s) v0 vs"
    by blast
  have "v \<in> set (v0 # vs)" unfolding v by (rule max_key_in)
  with victimas_validas_subset[OF vv] show ?thesis by blast
qed

definition rango :: "simulador \<Rightarrow> nat \<Rightarrow> nat" where
  "rango s r =
     size {#q \<in># mset (cola_listos_suspendidos s @ posibles_victimas s).
             t_restante (proc s q) < t_restante (proc s r)#}"

definition peso :: "simulador \<Rightarrow> nat" where
  "peso s = sum_mset (image_mset (rango s) (mset (posibles_victimas s)))"

lemma rango_menor:
  assumes "c \<in># M" "(f c :: int) < f v"
  shows "size {#q \<in># M. f q < f c#} < size {#q \<in># M. f q < f v#}"
proof -
  have "{#q \<in># M. f q < f c#} \<subseteq># {#q \<in># M. f q < f v#}"
    using assms(2) by (intro filter_mset_mono_strong) auto
  moreover have "count {#q \<in># M. f q < f c#} c \<noteq> count {#q \<in># M. f q < f v#} c"
    using assms by simp
  ultimately have "{#q \<in># M. f q < f c#} \<subset># {#q \<in># M. f q < f v#}"
    by (metis subset_mset.less_le)
  then show ?thesis by (rule mset_subset_size)
qed

lemma t_restante_swap [simp]:
  "t_restante (proc (ejecutar_swap c v k s) q) = t_restante (proc s q)"
  using datos_iguales[OF datos_ejecutar_swap] by blast

lemma ls_admitir [simp]:
  "cola_listos_suspendidos (admitir c k s) = remove1 c (cola_listos_suspendidos s)"
  by (simp add: admitir_def Let_def)

lemma ls_swap [simp]:
  "cola_listos_suspendidos (ejecutar_swap c v k s) = remove1 c (cola_listos_suspendidos s @ [v])"
  by (simp add: ejecutar_swap_def Let_def)

lemma posibles_swap:
  "v \<in> set (posibles_victimas s) \<Longrightarrow>
   mset (posibles_victimas (ejecutar_swap c v k s)) = mset (posibles_victimas s) - {#v#} + {#c#}"
  by (auto simp: ejecutar_swap_def Let_def posibles_victimas_def split: option.splits)

lemma mset_intercambio:
  assumes "c \<in># A" "v \<in># B"
  shows "(A + {#v#} - {#c#}) + (B - {#v#} + {#c#}) = A + B"
proof -
  obtain A' where A: "A = add_mset c A'" using assms(1) by (metis insert_DiffM)
  obtain B' where B: "B = add_mset v B'" using assms(2) by (metis insert_DiffM)
  show ?thesis by (simp add: A B)
qed

lemma length_remove1_menor: "x \<in> set xs \<Longrightarrow> Suc (length (remove1 x xs)) = length xs"
  by (induction xs) auto

lemma peso_swap:
  assumes c: "c \<in> set (cola_listos_suspendidos s)" and v: "v \<in> set (posibles_victimas s)"
    and lt: "t_restante (proc s c) < t_restante (proc s v)"
  shows "peso (ejecutar_swap c v k s) < peso s"
proof -
  let ?s' = "ejecutar_swap c v k s"
  have todo: "mset (cola_listos_suspendidos ?s' @ posibles_victimas ?s') =
      mset (cola_listos_suspendidos s @ posibles_victimas s)"
    using c v mset_intercambio[of c "mset (cola_listos_suspendidos s)" v "mset (posibles_victimas s)"]
    by (simp add: posibles_swap)
  have r: "rango ?s' = rango s"
    unfolding rango_def todo by (simp add: fun_eq_iff)
  have "c \<in># mset (cola_listos_suspendidos s @ posibles_victimas s)" using c by simp
  from rango_menor[OF this, of "\<lambda>q. t_restante (proc s q)" v] lt
  have lt': "rango s c < rango s v" by (simp add: rango_def)
  have "peso ?s' = sum_mset (image_mset (rango s) (mset (posibles_victimas s) - {#v#} + {#c#}))"
    unfolding peso_def r using v by (simp add: posibles_swap)
  also have "\<dots> = sum_mset (image_mset (rango s) (mset (posibles_victimas s) - {#v#})) + rango s c"
    by simp
  also have "\<dots> < sum_mset (image_mset (rango s) (mset (posibles_victimas s) - {#v#})) + rango s v"
    using lt' by simp
  also have "\<dots> = sum_mset (image_mset (rango s) (mset (posibles_victimas s)))"
    using v by (metis add.commute in_multiset_in_set insert_DiffM image_mset_add_mset sum_mset.add_mset)
  finally show ?thesis by (simp add: peso_def)
qed

lemma length_ls_ordenar [simp]:
  "length (cola_listos_suspendidos (ordenar_ls s)) = length (cola_listos_suspendidos s)"
  by (simp add: ordenar_ls_def)

termination intentar_admision
proof (relation "measures [\<lambda>s. length (cola_listos_suspendidos s), peso]", goal_cases)
  case 1
  show ?case by simp
next
  case (2 s x c_s2 c s2)
  let ?o = "ordenar_ls s"
  from 2 have p: "pase ?o (cola_listos_suspendidos ?o) = Inr (Some (c, s2))" by simp
  show ?case
  proof (cases c)
    case (Colocado r k)
    from pase_Colocado[OF p[unfolded Colocado]]
    have "r \<in> set (cola_listos_suspendidos ?o)" "s2 = admitir r k ?o" by simp_all
    then have "Suc (length (cola_listos_suspendidos s2)) = length (cola_listos_suspendidos ?o)"
      by (simp add: length_remove1_menor del: length_ls_ordenar)
    then show ?thesis by simp
  next
    case (Intercambiado v r k)
    from pase_Intercambiado[OF p[unfolded Intercambiado]]
    have r: "r \<in> set (cola_listos_suspendidos ?o)" and s2: "s2 = ejecutar_swap r v k ?o"
      and lt: "t_restante (proc ?o r) < t_restante (proc ?o v)" by simp_all
    have v: "v \<in> set (posibles_victimas ?o)"
      by (rule pase_victima_residente[OF p[unfolded Intercambiado]])
    have "Suc (length (cola_listos_suspendidos s2)) = Suc (length (cola_listos_suspendidos ?o))"
      using r unfolding s2 by (simp add: length_remove1_menor del: length_ls_ordenar)
    moreover have "peso s2 < peso ?o" unfolding s2 by (rule peso_swap[OF r v lt])
    moreover have "peso ?o = peso s"
    proof -
      have "rango ?o = rango s"
        by (simp add: rango_def ordenar_ls_def posibles_victimas_def fun_eq_iff)
      then show ?thesis by (simp add: peso_def ordenar_ls_def posibles_victimas_def)
    qed
    ultimately show ?thesis by simp
  qed
qed

subsection \<open>Scheduler\<close>

definition a_cpu :: "nat \<Rightarrow> simulador \<Rightarrow> simulador" where
  "a_cpu r s =
     (let s1 = modificar r (\<lambda>q. q\<lparr>estado := EJECUCION\<rparr>) s
      in if t_primera_ejecucion (proc s1 r) = - 1
         then modificar r (\<lambda>q. q\<lparr>t_primera_ejecucion := reloj s1\<rparr>) s1
         else s1)"

definition debe_desalojar :: "simulador \<Rightarrow> nat \<Rightarrow> nat \<Rightarrow> bool" where
  "debe_desalojar s corto run =
     (t_restante (proc s corto) < t_restante (proc s run) \<or>
      (t_restante (proc s corto) = t_restante (proc s run) \<and>
       t_llegada_listo (proc s corto) < t_llegada_listo (proc s run)))"

definition ejecutar_planificador :: "simulador \<Rightarrow> simulador" where
  "ejecutar_planificador s =
     (case encontrar_proceso_srtf s of (s1, corto) \<Rightarrow>
        (case proceso_en_ejecucion s1 of
           None \<Rightarrow>
             (case corto of
                None \<Rightarrow> s1
              | Some c \<Rightarrow>
                  (let r = hd (cola_listos s1);
                       s2 = s1\<lparr>cola_listos := tl (cola_listos s1), proceso_en_ejecucion := Some r\<rparr>
                   in evento_nuevo (Inicia r) (a_cpu r s2)))
         | Some run \<Rightarrow>
             (case corto of
                None \<Rightarrow> s1
              | Some c \<Rightarrow>
                  if debe_desalojar s1 c run then
                    (let s2 = modificar run (\<lambda>q. q\<lparr>estado := LISTO, t_llegada_listo := reloj s1\<rparr>) s1;
                         s3 = s2\<lparr>cola_listos := cola_listos s2 @ [run]\<rparr>;
                         s4 = s3\<lparr>cola_listos := sort_key (clave_srtf s3) (cola_listos s3)\<rparr>;
                         ent = hd (cola_listos s4);
                         s5 = s4\<lparr>cola_listos := tl (cola_listos s4)\<rparr>;
                         s6 = (a_cpu ent s5)\<lparr>proceso_en_ejecucion := Some ent\<rparr>
                     in evento_nuevo (Desalojo run ent) s6)
                  else s1)))"

subsection \<open>The tick\<close>

definition servir_cpu :: "simulador \<Rightarrow> error + simulador" where
  "servir_cpu s =
     (case proceso_en_ejecucion s of
        None \<Rightarrow> Inr s
      | Some cur \<Rightarrow>
          (let s1 = modificar cur (\<lambda>q. q\<lparr>t_restante := t_restante q - 1\<rparr>) s in
           if t_restante (proc s1 cur) = 0 then
             (let s2 = modificar cur (\<lambda>q. q\<lparr>estado := TERMINADO, t_fin := reloj s1 + 1\<rparr>) s1;
                  s3 = s2\<lparr>procesos_terminados := procesos_terminados s2 @ [cur],
                         proceso_en_ejecucion := None\<rparr>
              in case particion_de s3 cur of
                   Inl e \<Rightarrow> Inl e
                 | Inr k \<Rightarrow> Inr (evento_nuevo (Termina cur k) (liberar_particion k s3)))
           else Inr s1))"

text \<open>
  \<open>while self.procesos_nuevos and P(self.procesos_nuevos[0]) and gdm_actual < 5\<close>:
  the processes moved, the queue left and the counter reached.
\<close>

fun mientras_arriban :: "(nat \<Rightarrow> bool) \<Rightarrow> nat \<Rightarrow> nat list \<Rightarrow> nat list \<times> nat list \<times> nat" where
  "mientras_arriban P gdm [] = ([], [], gdm)"
| "mientras_arriban P gdm (r # rs) =
     (if P r \<and> gdm < 5
      then (case mientras_arriban P (gdm + 1) rs of (a, n, g) \<Rightarrow> (r # a, n, g))
      else ([], r # rs, gdm))"

primrec pasar_a_ls :: "nat list \<Rightarrow> simulador \<Rightarrow> simulador" where
  "pasar_a_ls [] s = s"
| "pasar_a_ls (p # ps) s =
     pasar_a_ls ps
       ((modificar p (\<lambda>q. q\<lparr>estado := L_S\<rparr>) s)
          \<lparr>cola_listos_suspendidos := cola_listos_suspendidos s @ [p]\<rparr>)"

definition gdm_actual :: "simulador \<Rightarrow> nat" where
  "gdm_actual s =
     length (cola_listos s) + length (cola_listos_suspendidos s) +
     (if proceso_en_ejecucion s = None then 0 else 1)"

definition llegadas :: "simulador \<Rightarrow> simulador" where
  "llegadas s =
     (let recien_arriban_ids =
            map (\<lambda>p. id_proceso (proc s p))
              (filter (\<lambda>p. t_arribo (proc s p) = reloj s) (procesos_nuevos s))
      in case mientras_arriban (\<lambda>p. t_arribo (proc s p) = reloj s) (gdm_actual s) (procesos_nuevos s)
         of (a1, n1, g1) \<Rightarrow>
           (let movidos_ids = map (\<lambda>p. id_proceso (proc s p)) a1;
                rechazados_ids = filter (\<lambda>i. i \<notin> set movidos_ids) recien_arriban_ids;
                s1 = (if a1 \<noteq> [] then evento_nuevo (Arriban_al_sistema a1) s else s);
                s2 = (if rechazados_ids \<noteq> [] then evento_nuevo (Arriban_gdm_lleno rechazados_ids) s1
                      else s1)
            in case mientras_arriban (\<lambda>p. t_arribo (proc s p) < reloj s) g1 n1
               of (a2, n2, g2) \<Rightarrow> pasar_a_ls (a1 @ a2) (s2\<lparr>procesos_nuevos := n2\<rparr>)))"

definition tick :: "simulador \<Rightarrow> error + simulador" where
  "tick s =
     (case servir_cpu (s\<lparr>eventos_del_tick := []\<rparr>) of
        Inl e \<Rightarrow> Inl e
      | Inr s1 \<Rightarrow>
          (case intentar_admision (llegadas s1) of
             Inl e \<Rightarrow> Inl e
           | Inr s3 \<Rightarrow> Inr (ejecutar_planificador s3)))"

text \<open>
  The engine's \<open>tick\<close> leaves the clock alone; the caller in gui.py (\<open>siguiente_tick\<close>)
  advances \<open>reloj\<close> and then calls \<open>tick\<close>.
\<close>

definition siguiente_tick :: "simulador \<Rightarrow> error + simulador" where
  "siguiente_tick s = tick (s\<lparr>reloj := (if reloj s = 0 then 1 else reloj s + 1)\<rparr>)"

subsection \<open>The constructor\<close>

definition estado_vacio :: "proceso list \<Rightarrow> simulador" where
  "estado_vacio procesos =
     \<lparr>reloj = 0, eventos_del_tick = [], todos_procesos = procesos, procesos_nuevos = [],
      cola_listos = [], cola_listos_suspendidos = [], proceso_en_ejecucion = None,
      procesos_terminados = [], procesos_reporte = [],
      particiones = [Particion 0 100 True 0, Particion 1 250 False 100,
                     Particion 2 150 False 350, Particion 3 50 False 500]\<rparr>"

primrec arribos_iniciales :: "nat list \<Rightarrow> simulador \<Rightarrow> simulador" where
  "arribos_iniciales [] s = s"
| "arribos_iniciales (p # ps) s =
     arribos_iniciales ps
       (if \<not> cabe_en_alguna_particion s p
        then evento_nuevo (No_cabe p)
               ((modificar p (\<lambda>q. q\<lparr>estado := L_S\<rparr>) s)
                  \<lparr>cola_listos_suspendidos := cola_listos_suspendidos s @ [p]\<rparr>)
        else (modificar p (\<lambda>q. q\<lparr>estado := L_S\<rparr>) s)
               \<lparr>cola_listos_suspendidos := cola_listos_suspendidos s @ [p]\<rparr>)"

definition guardar_estado_inicial :: "simulador \<Rightarrow> error + simulador" where
  "guardar_estado_inicial s =
     (let arribados = takeWhile (\<lambda>p. t_arribo (proc s p) = 0) (procesos_nuevos s);
          s1 = s\<lparr>procesos_nuevos := dropWhile (\<lambda>p. t_arribo (proc s p) = 0) (procesos_nuevos s)\<rparr>;
          s2 = (if arribados \<noteq> [] then evento_nuevo (Arriban arribados) s1 else s1)
      in case intentar_admision (arribos_iniciales arribados s2) of
           Inl e \<Rightarrow> Inl e
         | Inr s3 \<Rightarrow> Inr (ejecutar_planificador s3))"

definition Simulador :: "proceso list \<Rightarrow> error + simulador" where
  "Simulador procesos = guardar_estado_inicial (preparar_colas (estado_vacio procesos))"

subsection \<open>Snapshot and final report\<close>

text \<open>
  The snapshot of \<open>get_datos_gui\<close>, without the progress table (a table of floating
  point percentages).  The cells are strings in the source; a cell here holds the values
  the string is formatted from: \<open>Ocupada i t\<close> stands for \<open>"P{i} ({t} KB)"\<close>, \<open>FI n\<close> for
  \<open>"FI: {n} KB"\<close>.
\<close>

datatype contenido = Sistema_operativo | Ocupada int int | Sin_contenido

datatype estado_particion = FI int | Espacio_Libre

record info_particion =
  info_id :: nat
  info_base :: int
  info_tamano :: int
  info_contenido :: contenido
  info_estado :: estado_particion

definition get_info_particion :: "simulador \<Rightarrow> particion \<Rightarrow> info_particion" where
  "get_info_particion s p =
     (let (c, e) =
        (if es_so p then (Sistema_operativo, FI 0)
         else (case proceso_asignado p of
                 Some pr \<Rightarrow> (Ocupada (id_proceso (proc s pr)) (tamano (proc s pr)),
                             FI (fragmentacion_interna s p))
               | None \<Rightarrow> (Sin_contenido, Espacio_Libre)))
      in \<lparr>info_id = id_part p, info_base = base p, info_tamano = tamano_part p,
          info_contenido = c, info_estado = e\<rparr>)"

record datos_gui =
  dg_reloj :: int
  dg_eventos :: "evento list"
  dg_ejecutando :: "(int \<times> int) option"
  dg_listos :: "int list"
  dg_listos_suspendidos :: "int list"
  dg_nuevos :: "int list"
  dg_terminados :: "int list"
  dg_particiones :: "info_particion list"

definition get_datos_gui :: "simulador \<Rightarrow> datos_gui" where
  "get_datos_gui s =
     \<lparr>dg_reloj = reloj s,
      dg_eventos = eventos_del_tick s,
      dg_ejecutando = map_option (\<lambda>run. (id_proceso (proc s run), t_restante (proc s run)))
                        (proceso_en_ejecucion s),
      dg_listos = map (\<lambda>p. id_proceso (proc s p)) (cola_listos s),
      dg_listos_suspendidos = map (\<lambda>p. id_proceso (proc s p)) (cola_listos_suspendidos s),
      dg_nuevos = map (\<lambda>p. id_proceso (proc s p)) (procesos_nuevos s),
      dg_terminados = map (\<lambda>p. id_proceso (proc s p)) (procesos_terminados s),
      dg_particiones = map (get_info_particion s) (particiones s)\<rparr>"

text \<open>
  The final report.  \<open>a / b\<close> on Python integers raises ZeroDivisionError when \<open>b\<close> is
  zero.  The source formats each quotient with a fixed number of decimals; \<open>Decimales n q\<close>
  stands for the string that shows \<open>q\<close> with \<open>n\<close> decimals (the quotient is kept exact
  here, the rounding of the floating point division is not modelled), \<open>Texto\<close> for a
  string constant.  A row of the table is either a row of numbers or the row of a
  process that never entered memory (\<open>"No admitido ({tamano} KB)"\<close>).
\<close>

definition dividir :: "int \<Rightarrow> int \<Rightarrow> error + rat" where
  "dividir a b = (if b = 0 then Inl ZeroDivisionError else Inr (Fract a b))"

datatype numero = Texto string | Decimales nat rat

datatype fila_reporte =
    Metricas int int int int int int int int
  | No_admitido int int int int

record reporte_final =
  rf_procesos :: "fila_reporte list"
  rf_promedios :: "(string \<times> numero) list"
  rf_throughput :: numero
  rf_procesos_contados :: int
  rf_tiempo_final :: int

record acumulado =
  reporte_procesos :: "fila_reporte list"
  total_retorno :: int
  total_espera :: int
  total_respuesta :: int
  procesos_contados :: int

definition fila_de :: "simulador \<Rightarrow> acumulado \<Rightarrow> nat \<Rightarrow> acumulado" where
  "fila_de s a r =
     (let p = proc s r in
      if t_fin p \<noteq> - 1 then
        (let T = t_fin p - t_arribo p;
             W = T - t_irrupcion p;
             R = t_primera_ejecucion p - t_arribo p
         in a\<lparr>procesos_contados := procesos_contados a + 1,
              total_retorno := total_retorno a + T,
              total_espera := total_espera a + W,
              total_respuesta := total_respuesta a + R,
              reporte_procesos := reporte_procesos a @
                [Metricas (id_proceso p) (t_arribo p) (t_primera_ejecucion p) (t_fin p)
                   (t_irrupcion p) W R T]\<rparr>)
      else if estado p = L_S \<and> \<not> cabe_en_alguna_particion s r then
        a\<lparr>reporte_procesos := reporte_procesos a @
             [No_admitido (id_proceso p) (t_arribo p) (t_irrupcion p) (tamano p)]\<rparr>
      else a)"

definition get_reporte_final :: "simulador \<Rightarrow> error + (reporte_final \<times> simulador)" where
  "get_reporte_final s =
     (let s1 = s\<lparr>procesos_reporte := sort_key (\<lambda>r. id_proceso (proc s r)) (procesos_reporte s)\<rparr>;
          a = foldl (fila_de s1)
                \<lparr>reporte_procesos = [], total_retorno = 0, total_espera = 0,
                 total_respuesta = 0, procesos_contados = 0\<rparr>
                (procesos_reporte s1)
      in case (if procesos_contados a > 0
               then (case dividir (total_espera a) (procesos_contados a) of
                       Inl e \<Rightarrow> Inl e
                     | Inr espera \<Rightarrow>
                         (case dividir (total_respuesta a) (procesos_contados a) of
                            Inl e \<Rightarrow> Inl e
                          | Inr respuesta \<Rightarrow>
                              (case dividir (total_retorno a) (procesos_contados a) of
                                 Inl e \<Rightarrow> Inl e
                               | Inr retorno \<Rightarrow>
                                   Inr [(''espera'', Decimales 2 espera),
                                        (''respuesta'', Decimales 2 respuesta),
                                        (''retorno'', Decimales 2 retorno)])))
               else Inr [])
         of Inl e \<Rightarrow> Inl e
          | Inr promedios \<Rightarrow>
              (case (if reloj s1 > 0
                     then (case dividir (procesos_contados a) (reloj s1) of
                             Inl e \<Rightarrow> Inl e
                           | Inr t \<Rightarrow> Inr (Decimales 3 t))
                     else Inr (Texto ''0.000''))
               of Inl e \<Rightarrow> Inl e
                | Inr throughput \<Rightarrow>
                    Inr (\<lparr>rf_procesos = reporte_procesos a, rf_promedios = promedios,
                          rf_throughput = throughput,
                          rf_procesos_contados = procesos_contados a,
                          rf_tiempo_final = reloj s1\<rparr>, s1)))"

subsection \<open>Running the engine\<close>

text \<open>
  \<open>correr n\<close> is \<open>n\<close> presses of the tick button of gui.py, \<open>simular procesos n\<close> the
  state after construction and \<open>n\<close> ticks.  The interface stops offering the button once
  \<open>is_running\<close> is false; the states reached here include those and more.
\<close>

primrec correr :: "nat \<Rightarrow> simulador \<Rightarrow> error + simulador" where
  "correr 0 s = Inr s"
| "correr (Suc n) s = (case siguiente_tick s of Inl e \<Rightarrow> Inl e | Inr s' \<Rightarrow> correr n s')"

definition simular :: "proceso list \<Rightarrow> nat \<Rightarrow> error + simulador" where
  "simular procesos n = (case Simulador procesos of Inl e \<Rightarrow> Inl e | Inr s \<Rightarrow> correr n s)"

text \<open>The snapshot shows a partition of the given size with the given content and state.\<close>

definition muestra :: "datos_gui \<Rightarrow> int \<Rightarrow> contenido \<Rightarrow> estado_particion \<Rightarrow> bool" where
  "muestra d tam c e =
     list_ex (\<lambda>i. info_tamano i = tam \<and> info_contenido i = c \<and> info_estado i = e)
       (dg_particiones d)"

definition escenario :: "proceso list" where
  "escenario = [Proceso 1 120 0 5, Proceso 2 40 0 3]"

section \<open>The Best-Fit scenario\<close>

text \<open>
  C1, as stated: after the first tick of the scenario the snapshot shows P1 in the
  250 KB partition with fragmentation 130 and P2 in the 150 KB partition with
  fragmentation 110.  The engine does not produce that snapshot.
\<close>

theorem escenario_no_250_150:
  "map_sum id
     (\<lambda>s. muestra (get_datos_gui s) 250 (Ocupada 1 120) (FI 130) \<and>
          muestra (get_datos_gui s) 150 (Ocupada 2 40) (FI 110))
     (simular escenario 1) = Inr False"
  by code_simp

text \<open>
  C1, amended: after the first tick of the scenario P2 is running (with 2 units left),
  P1 is in the ready queue in state LISTO and holds a partition, and the snapshot shows
  the 250 KB partition free, P1 in the 150 KB partition with fragmentation 30 and P2 in
  the 50 KB partition with fragmentation 10: Best-Fit takes the least fragmentation.
\<close>

theorem escenario_primer_tick:
  "map_sum id
     (\<lambda>s. (dg_ejecutando (get_datos_gui s), dg_listos (get_datos_gui s),
           map estado (todos_procesos s), map id_particion (todos_procesos s),
           dg_particiones (get_datos_gui s)))
     (simular escenario 1) =
   Inr (Some (2, 2), [1], [LISTO, EJECUCION], [Some 2, Some 3],
        [\<lparr>info_id = 0, info_base = 0, info_tamano = 100,
           info_contenido = Sistema_operativo, info_estado = FI 0\<rparr>,
         \<lparr>info_id = 1, info_base = 100, info_tamano = 250,
           info_contenido = Sin_contenido, info_estado = Espacio_Libre\<rparr>,
         \<lparr>info_id = 2, info_base = 350, info_tamano = 150,
           info_contenido = Ocupada 1 120, info_estado = FI 30\<rparr>,
         \<lparr>info_id = 3, info_base = 500, info_tamano = 50,
           info_contenido = Ocupada 2 40, info_estado = FI 10\<rparr>])"
  by code_simp

section \<open>System slots at construction\<close>

text \<open>
  C2 fails at construction: \<open>_guardar_estado_inicial\<close> moves every process that arrives
  at 0 into the suspended queue without looking at the limit of 5 that \<open>tick\<close> applies
  (and that its own comment promises).  With six processes arriving at 0, six are in
  states Suspended, Ready or Running right after construction.
\<close>

theorem construccion_seis_en_sistema:
  "map_sum id gdm_actual (Simulador (map (\<lambda>i. Proceso i 10 0 4) [1, 2, 3, 4, 5, 6])) = Inr 6"
  by code_simp

section \<open>Best-Fit placement\<close>

definition candidata :: "particion list \<Rightarrow> int \<Rightarrow> nat \<Rightarrow> bool" where
  "candidata ps tam k = (esta_libre (ps ! k) \<and> tam \<le> tamano_part (ps ! k))"

lemma mejor_paso_fold:
  assumes "foldl (mejor_paso ps tam) acc ks = Some (k, fi)"
    and "\<And>m mf. acc = Some (m, mf) \<Longrightarrow> candidata ps tam m \<and> mf = tamano_part (ps ! m) - tam"
  shows "candidata ps tam k \<and> fi = tamano_part (ps ! k) - tam \<and>
         (k \<in> set ks \<or> (\<exists>mf. acc = Some (k, mf))) \<and>
         (\<forall>j\<in>set ks. candidata ps tam j \<longrightarrow> fi \<le> tamano_part (ps ! j) - tam) \<and>
         (\<forall>m mf. acc = Some (m, mf) \<longrightarrow> fi \<le> mf)"
  using assms
proof (induction ks arbitrary: acc)
  case Nil
  then show ?case by auto
next
  case (Cons j ks)
  let ?acc = "mejor_paso ps tam acc j"
  have f: "foldl (mejor_paso ps tam) ?acc ks = Some (k, fi)" using Cons.prems(1) by simp
  have g: "\<And>m mf. ?acc = Some (m, mf) \<Longrightarrow> candidata ps tam m \<and> mf = tamano_part (ps ! m) - tam"
    using Cons.prems(2)
    by (auto simp: mejor_paso_def candidata_def Let_def split: if_splits option.splits)
  note ih = Cons.IH[OF f g]
  have paso: "(\<forall>m mf. acc = Some (m, mf) \<longrightarrow> (\<exists>m' mf'. ?acc = Some (m', mf') \<and> mf' \<le> mf)) \<and>
     (candidata ps tam j \<longrightarrow> (\<exists>m' mf'. ?acc = Some (m', mf') \<and> mf' \<le> tamano_part (ps ! j) - tam)) \<and>
     (\<forall>m' mf'. ?acc = Some (m', mf') \<longrightarrow> m' = j \<or> acc = Some (m', mf'))"
    using Cons.prems(2)
    by (auto simp: mejor_paso_def candidata_def Let_def split: if_splits option.splits)
  have ih4: "\<And>i. i \<in> set ks \<Longrightarrow> candidata ps tam i \<Longrightarrow> fi \<le> tamano_part (ps ! i) - tam"
    using ih by blast
  have ih5: "\<And>m mf. ?acc = Some (m, mf) \<Longrightarrow> fi \<le> mf" using ih by blast
  have p1: "\<And>m mf. acc = Some (m, mf) \<Longrightarrow> \<exists>m' mf'. ?acc = Some (m', mf') \<and> mf' \<le> mf"
    using paso by blast
  have p2: "candidata ps tam j \<Longrightarrow> \<exists>m' mf'. ?acc = Some (m', mf') \<and> mf' \<le> tamano_part (ps ! j) - tam"
    using paso by blast
  have p3: "\<And>m' mf'. ?acc = Some (m', mf') \<Longrightarrow> m' = j \<or> acc = Some (m', mf')"
    using paso by blast
  have c1: "candidata ps tam k" and c2: "fi = tamano_part (ps ! k) - tam"
    and c3: "k \<in> set ks \<or> (\<exists>mf. ?acc = Some (k, mf))"
    using ih by blast+
  have c3': "k \<in> set (j # ks) \<or> (\<exists>mf. acc = Some (k, mf))"
  proof (cases "k \<in> set ks")
    case True
    then show ?thesis by simp
  next
    case False
    with c3 obtain mf where "?acc = Some (k, mf)" by blast
    from p3[OF this] show ?thesis by auto
  qed
  have c4: "fi \<le> tamano_part (ps ! i) - tam" if "i \<in> set (j # ks)" "candidata ps tam i" for i
  proof (cases "i = j")
    case True
    from p2 that True obtain m' mf' where "?acc = Some (m', mf')" "mf' \<le> tamano_part (ps ! j) - tam"
      by blast
    with ih5 True show ?thesis by fastforce
  next
    case False
    with that ih4 show ?thesis by simp
  qed
  have c5: "fi \<le> mf" if "acc = Some (m, mf)" for m mf
  proof -
    from p1[OF that] obtain m' mf' where "?acc = Some (m', mf')" "mf' \<le> mf" by blast
    with ih5 show ?thesis by fastforce
  qed
  show ?case using c1 c2 c3' c4 c5 by blast
qed

lemma mejor_paso_fold_None:
  "foldl (mejor_paso ps tam) acc ks = None \<Longrightarrow> acc = None \<and> (\<forall>j\<in>set ks. \<not> candidata ps tam j)"
proof (induction ks arbitrary: acc)
  case Nil
  then show ?case by simp
next
  case (Cons j ks)
  from Cons.IH[of "mejor_paso ps tam acc j"] Cons.prems
  have a: "mejor_paso ps tam acc j = None" and b: "\<forall>i\<in>set ks. \<not> candidata ps tam i" by simp_all
  from a show ?case using b
    by (auto simp: mejor_paso_def candidata_def Let_def split: if_splits option.splits)
qed

lemma encontrar_mejor_particion_Some:
  assumes "encontrar_mejor_particion s r ks = Some k"
  shows "k \<in> set ks \<and> esta_libre (particiones s ! k) \<and>
         tamano (proc s r) \<le> tamano_part (particiones s ! k) \<and>
         (\<forall>j\<in>set ks. esta_libre (particiones s ! j) \<and> tamano (proc s r) \<le> tamano_part (particiones s ! j)
            \<longrightarrow> tamano_part (particiones s ! k) \<le> tamano_part (particiones s ! j))"
proof -
  from assms obtain fi where
    f: "foldl (mejor_paso (particiones s) (tamano (proc s r))) None ks = Some (k, fi)"
    by (auto simp: encontrar_mejor_particion_def)
  from mejor_paso_fold[OF f]
  have a: "candidata (particiones s) (tamano (proc s r)) k"
    and b: "fi = tamano_part (particiones s ! k) - tamano (proc s r)"
    and c: "k \<in> set ks"
    and d: "\<And>j. j \<in> set ks \<Longrightarrow> candidata (particiones s) (tamano (proc s r)) j \<Longrightarrow>
               fi \<le> tamano_part (particiones s ! j) - tamano (proc s r)"
    by auto
  have "tamano_part (particiones s ! k) \<le> tamano_part (particiones s ! j)"
    if "j \<in> set ks" "esta_libre (particiones s ! j)" "tamano (proc s r) \<le> tamano_part (particiones s ! j)" for j
    using d[of j] that b by (simp add: candidata_def)
  then show ?thesis using a c by (auto simp: candidata_def)
qed

lemma encontrar_mejor_particion_None:
  "encontrar_mejor_particion s r ks = None \<Longrightarrow>
     \<forall>j\<in>set ks. \<not> (esta_libre (particiones s ! j) \<and> tamano (proc s r) \<le> tamano_part (particiones s ! j))"
  using mejor_paso_fold_None[of "particiones s" "tamano (proc s r)" None ks]
  by (simp add: encontrar_mejor_particion_def candidata_def)

lemma set_libres: "set (libres s) = {k. k < length (particiones s) \<and> esta_libre (particiones s ! k)}"
  by (auto simp: libres_def)

lemma particiones_modificar_asignar:
  "k < length (particiones s) \<Longrightarrow> esta_libre (particiones s ! k) \<Longrightarrow>
   tamano (proc s c) \<le> tamano_part (particiones s ! k) \<Longrightarrow>
   particiones (asignar_proceso k c s) = (particiones s)[k := (particiones s ! k)\<lparr>proceso_asignado := Some c\<rparr>]"
  by (simp add: asignar_proceso_def Let_def)

text \<open>
  C5: when the admission loop places a suspended process, the partition chosen is free,
  is not the reserved one, fits the process, and leaves the least \<open>capacity - size\<close>
  among the free partitions that fit (so it is also the smallest such capacity); the
  process is then the occupant of that partition and is in the ready queue.
\<close>

theorem best_fit:
  assumes "pase s cs = Inr (Some (Colocado c k, s'))"
  shows "k < length (particiones s) \<and>
         proceso_asignado (particiones s ! k) = None \<and> \<not> es_so (particiones s ! k) \<and>
         tamano (proc s c) \<le> tamano_part (particiones s ! k) \<and>
         (\<forall>j < length (particiones s).
            esta_libre (particiones s ! j) \<and> tamano (proc s c) \<le> tamano_part (particiones s ! j) \<longrightarrow>
            tamano_part (particiones s ! k) - tamano (proc s c)
              \<le> tamano_part (particiones s ! j) - tamano (proc s c) \<and>
            tamano_part (particiones s ! k) \<le> tamano_part (particiones s ! j)) \<and>
         proceso_asignado (particiones s' ! k) = Some c \<and> c \<in> set (cola_listos s')"
proof -
  from pase_Colocado[OF assms] have s': "s' = admitir c k s"
    and m: "encontrar_mejor_particion s c (libres s) = Some k" by simp_all
  note e = encontrar_mejor_particion_Some[OF m]
  have k: "k < length (particiones s)" "esta_libre (particiones s ! k)"
    "tamano (proc s c) \<le> tamano_part (particiones s ! k)"
    using e by (simp_all add: set_libres)
  have "particiones s' = (particiones s)[k := (particiones s ! k)\<lparr>proceso_asignado := Some c\<rparr>]"
    using k by (simp add: s' admitir_def Let_def particiones_modificar_asignar)
  then have p: "proceso_asignado (particiones s' ! k) = Some c" using k(1) by simp
  have l: "c \<in> set (cola_listos s')" by (simp add: s' admitir_def Let_def)
  show ?thesis using e k p l by (simp add: set_libres esta_libre_def)
qed

definition recien_llegados :: simulador where
  "recien_llegados =
     ordenar_ls (arribos_iniciales [0, 1]
       ((preparar_colas (estado_vacio escenario))\<lparr>procesos_nuevos := []\<rparr>))"

lemma pase_recien_llegados:
  "pase recien_llegados (cola_listos_suspendidos recien_llegados) =
     Inr (Some (Colocado 1 3, admitir 1 3 recien_llegados))"
  by code_simp

theorem best_fit_witness:
  "pase recien_llegados (cola_listos_suspendidos recien_llegados) =
     Inr (Some (Colocado 1 3, admitir 1 3 recien_llegados)) \<and>
   \<not> es_so (particiones recien_llegados ! 3) \<and>
   tamano_part (particiones recien_llegados ! 3) = 50 \<and>
   tamano_part (particiones recien_llegados ! 3) \<le> tamano_part (particiones recien_llegados ! 2) \<and>
   proceso_asignado (particiones (admitir 1 3 recien_llegados) ! 3) = Some 1"
proof -
  note b = best_fit[OF pase_recien_llegados]
  have l: "esta_libre (particiones recien_llegados ! 2)"
    "tamano (proc recien_llegados 1) \<le> tamano_part (particiones recien_llegados ! 2)"
    "2 < length (particiones recien_llegados)"
    "tamano_part (particiones recien_llegados ! 3) = 50"
    by code_simp+
  from b l show ?thesis using pase_recien_llegados by blast
qed

section \<open>Swap soundness\<close>

lemma victimas_validas_todas:
  "victimas_validas s c xs = Inr ws \<Longrightarrow>
     (\<forall>v\<in>set xs. \<exists>k. particion_de s v = Inr k) \<and>
     ws = filter (\<lambda>v. \<exists>k. particion_de s v = Inr k \<and>
                          tamano (proc s c) \<le> tamano_part (particiones s ! k)) xs"
  by (induction xs arbitrary: ws) (auto split: sum.splits if_splits)

lemma max_key_inicial: "(f m :: 'k::linorder) \<le> f (max_key f m xs)"
proof (induction xs arbitrary: m)
  case Nil
  show ?case by simp
next
  case (Cons y ys)
  have "f m \<le> f (if f m < f y then y else m)" by auto
  also have "\<dots> \<le> f (max_key f (if f m < f y then y else m) ys)" by (rule Cons.IH)
  finally show ?case by simp
qed

lemma max_key_mayor: "x \<in> set (m # xs) \<Longrightarrow> (f x :: 'k::linorder) \<le> f (max_key f m xs)"
proof (induction xs arbitrary: m)
  case Nil
  then show ?case by simp
next
  case (Cons y ys)
  let ?m = "if f m < f y then y else m"
  show ?case
  proof (cases "x \<in> set ys")
    case True
    then have "x \<in> set (?m # ys)" by simp
    from Cons.IH[OF this] show ?thesis by simp
  next
    case False
    with Cons.prems have "x = m \<or> x = y" by auto
    then have "f x \<le> f ?m" by auto
    also have "\<dots> \<le> f (max_key f ?m ys)" by (rule max_key_inicial)
    finally show ?thesis by simp
  qed
qed

lemma particion_de_Inr:
  "particion_de s v = Inr k \<longleftrightarrow> id_particion (proc s v) = Some k \<and> k < length (particiones s)"
  by (auto simp: particion_de_def split: option.splits)

lemma clave_ls_le:
  "clave_ls s w \<le> clave_ls s v \<longleftrightarrow>
     t_restante (proc s w) < t_restante (proc s v) \<or>
     (t_restante (proc s w) = t_restante (proc s v) \<and> id_proceso (proc s w) \<le> id_proceso (proc s v))"
  by (auto simp: clave_ls_def)

lemma listos_swap: "c \<in> set (cola_listos (ejecutar_swap c v k s))"
  by (simp add: ejecutar_swap_def Let_def)

text \<open>
  C6: when the admission loop swaps, the victim has strictly more remaining time than
  the candidate, is memory-resident, and its partition is large enough for the
  candidate; and no other resident whose partition is large enough has a greater
  \<open>(t_restante, id_proceso)\<close>: the victim has the largest remaining time, ties broken by
  the largest id.  After the swap the victim is suspended and the candidate is ready.
\<close>

theorem swap_soundness:
  assumes "pase s cs = Inr (Some (Intercambiado v c k, s'))"
  shows "t_restante (proc s c) < t_restante (proc s v) \<and>
         v \<in> set (posibles_victimas s) \<and>
         id_particion (proc s v) = Some k \<and> k < length (particiones s) \<and>
         tamano (proc s c) \<le> tamano_part (particiones s ! k) \<and>
         (\<forall>w\<in>set (posibles_victimas s). \<forall>j.
            id_particion (proc s w) = Some j \<and> tamano (proc s c) \<le> tamano_part (particiones s ! j) \<longrightarrow>
            t_restante (proc s w) < t_restante (proc s v) \<or>
            (t_restante (proc s w) = t_restante (proc s v) \<and>
             id_proceso (proc s w) \<le> id_proceso (proc s v))) \<and>
         v \<in> set (cola_listos_suspendidos s') \<and> c \<in> set (cola_listos s')"
proof -
  from pase_Intercambiado[OF assms] obtain v0 vs where
    c: "c \<in> set cs" and s': "s' = ejecutar_swap c v k s"
    and vv: "victimas_validas s c (posibles_victimas s) = Inr (v0 # vs)"
    and v: "v = max_key (clave_ls s) v0 vs"
    and lt: "t_restante (proc s c) < t_restante (proc s v)"
    and pk: "particion_de s v = Inr k"
    by blast
  note t = victimas_validas_todas[OF vv]
  let ?ok = "\<lambda>v. \<exists>k. particion_de s v = Inr k \<and> tamano (proc s c) \<le> tamano_part (particiones s ! k)"
  have vin: "v \<in> set (v0 # vs)" unfolding v by (rule max_key_in)
  then have "v \<in> set (filter ?ok (posibles_victimas s))" using t by simp
  then have vp: "v \<in> set (posibles_victimas s)" and vok: "?ok v" by simp_all
  from vok pk have cap: "tamano (proc s c) \<le> tamano_part (particiones s ! k)" by simp
  have mx: "clave_ls s w \<le> clave_ls s v"
    if "w \<in> set (posibles_victimas s)" "id_particion (proc s w) = Some j"
       "tamano (proc s c) \<le> tamano_part (particiones s ! j)" for w j
  proof -
    from t that(1) obtain j' where "particion_de s w = Inr j'" by blast
    with that(2) have "particion_de s w = Inr j" by (simp add: particion_de_Inr)
    with that have "w \<in> set (filter ?ok (posibles_victimas s))" by simp
    then have "w \<in> set (v0 # vs)" using t by simp
    then show ?thesis unfolding v by (rule max_key_mayor)
  qed
  have ls: "v \<in> set (cola_listos_suspendidos s')"
  proof -
    have "c \<noteq> v" using lt by auto
    then show ?thesis by (simp add: s')
  qed
  show ?thesis
    using lt vp pk cap mx ls listos_swap[of c v k s]
    by (simp add: particion_de_Inr clave_ls_le s')
qed

text \<open>
  A state with the memory full: the scenario of three long processes resident and a short
  one just arrived, at the start of the admission stage of the first tick.
\<close>

definition cohorte_swap :: "proceso list" where
  "cohorte_swap = [Proceso 1 10 0 10, Proceso 2 10 0 9, Proceso 3 10 0 8, Proceso 4 10 1 2]"

definition memoria_llena :: simulador where
  "memoria_llena =
     \<lparr>reloj = 1, eventos_del_tick = [Arriban_al_sistema [3]],
      todos_procesos =
        [\<lparr>id_proceso = 1, tamano = 10, t_arribo = 0, t_irrupcion = 10, estado = LISTO,
          t_restante = 10, id_particion = Some 1, t_fin = - 1, t_primera_ejecucion = - 1,
          t_llegada_listo = 0\<rparr>,
         \<lparr>id_proceso = 2, tamano = 10, t_arribo = 0, t_irrupcion = 9, estado = LISTO,
          t_restante = 9, id_particion = Some 2, t_fin = - 1, t_primera_ejecucion = - 1,
          t_llegada_listo = 0\<rparr>,
         \<lparr>id_proceso = 3, tamano = 10, t_arribo = 0, t_irrupcion = 8, estado = EJECUCION,
          t_restante = 7, id_particion = Some 3, t_fin = - 1, t_primera_ejecucion = 0,
          t_llegada_listo = 0\<rparr>,
         \<lparr>id_proceso = 4, tamano = 10, t_arribo = 1, t_irrupcion = 2, estado = L_S,
          t_restante = 2, id_particion = None, t_fin = - 1, t_primera_ejecucion = - 1,
          t_llegada_listo = - 1\<rparr>],
      procesos_nuevos = [], cola_listos = [1, 0], cola_listos_suspendidos = [3],
      proceso_en_ejecucion = Some 2, procesos_terminados = [], procesos_reporte = [0, 1, 2, 3],
      particiones =
        [\<lparr>id_part = 0, tamano_part = 100, es_so = True, base = 0, proceso_asignado = None\<rparr>,
         \<lparr>id_part = 1, tamano_part = 250, es_so = False, base = 100, proceso_asignado = Some 0\<rparr>,
         \<lparr>id_part = 2, tamano_part = 150, es_so = False, base = 350, proceso_asignado = Some 1\<rparr>,
         \<lparr>id_part = 3, tamano_part = 50, es_so = False, base = 500, proceso_asignado = Some 2\<rparr>]\<rparr>"

lemma memoria_llena_alcanzada:
  "(case Simulador cohorte_swap of
      Inl e \<Rightarrow> Inl e
    | Inr s \<Rightarrow> map_sum id (\<lambda>s1. ordenar_ls (llegadas s1))
               (servir_cpu (s\<lparr>reloj := 1, eventos_del_tick := []\<rparr>))) = Inr memoria_llena"
  by code_simp

lemma pase_memoria_llena:
  "pase memoria_llena [3] = Inr (Some (Intercambiado 0 3 1, ejecutar_swap 3 0 1 memoria_llena))"
  by code_simp

theorem swap_soundness_witness:
  "pase memoria_llena [3] = Inr (Some (Intercambiado 0 3 1, ejecutar_swap 3 0 1 memoria_llena)) \<and>
   t_restante (proc memoria_llena 3) < t_restante (proc memoria_llena 0) \<and>
   tamano (proc memoria_llena 3) \<le> tamano_part (particiones memoria_llena ! 1) \<and>
   0 \<in> set (cola_listos_suspendidos (ejecutar_swap 3 0 1 memoria_llena)) \<and>
   3 \<in> set (cola_listos (ejecutar_swap 3 0 1 memoria_llena))"
  using swap_soundness[OF pase_memoria_llena] pase_memoria_llena by blast

section \<open>SRTF at the end of a tick\<close>

lemma hd_sort_key_menor:
  assumes "x \<in> set xs"
  shows "f (hd (sort_key f xs)) \<le> f x"
proof -
  have s: "sorted (map f (sort_key f xs))" by simp
  from assms have ne: "sort_key f xs \<noteq> []" by (metis empty_iff set_empty set_sort)
  then obtain y ys where y: "sort_key f xs = y # ys" by (cases "sort_key f xs") auto
  from assms have "x \<in> set (sort_key f xs)" by simp
  with s y show ?thesis by auto
qed

definition clave_de :: "proceso \<Rightarrow> int \<times> int \<times> int" where
  "clave_de p = (t_restante p, t_llegada_listo p, id_proceso p)"

lemma clave_srtf_de: "clave_srtf s r = clave_de (proc s r)"
  by (simp add: clave_srtf_def clave_de_def)

lemma clave_de_campos [simp]:
  "clave_de (p\<lparr>estado := e\<rparr>) = clave_de p"
  "clave_de (p\<lparr>t_primera_ejecucion := t\<rparr>) = clave_de p"
  by (simp_all add: clave_de_def)

lemma clave_a_cpu [simp]: "clave_de (proc (a_cpu r s) q) = clave_de (proc s q)"
  by (simp add: a_cpu_def Let_def proc_modificar)

lemma a_cpu_campos [simp]:
  "reloj (a_cpu r s) = reloj s"
  "eventos_del_tick (a_cpu r s) = eventos_del_tick s"
  "procesos_nuevos (a_cpu r s) = procesos_nuevos s"
  "cola_listos (a_cpu r s) = cola_listos s"
  "cola_listos_suspendidos (a_cpu r s) = cola_listos_suspendidos s"
  "proceso_en_ejecucion (a_cpu r s) = proceso_en_ejecucion s"
  "procesos_terminados (a_cpu r s) = procesos_terminados s"
  "procesos_reporte (a_cpu r s) = procesos_reporte s"
  "particiones (a_cpu r s) = particiones s"
  "length (todos_procesos (a_cpu r s)) = length (todos_procesos s)"
  by (simp_all add: a_cpu_def Let_def)

lemma no_desaloja:
  "clave_de (proc s run) \<le> clave_de (proc s r) \<Longrightarrow> \<not> debe_desalojar s r run"
  by (auto simp: debe_desalojar_def clave_de_def)

lemma no_desaloja_trans:
  assumes "\<not> debe_desalojar s c run" "clave_de (proc s c) \<le> clave_de (proc s r)"
  shows "\<not> debe_desalojar s r run"
  using assms by (auto simp: debe_desalojar_def clave_de_def)

lemma planificador_srtf:
  assumes e: "proceso_en_ejecucion (ejecutar_planificador s) = Some run"
    and r: "r \<in> set (cola_listos (ejecutar_planificador s))"
  shows "\<not> debe_desalojar (ejecutar_planificador s) r run"
proof (cases "cola_listos s = []")
  case True
  then have "cola_listos (ejecutar_planificador s) = []"
    by (simp add: ejecutar_planificador_def encontrar_proceso_srtf_def split: option.splits)
  with r show ?thesis by simp
next
  case False
  define s1 where "s1 = s\<lparr>cola_listos := sort_key (clave_srtf s) (cola_listos s)\<rparr>"
  define c where "c = hd (cola_listos s1)"
  have enc: "encontrar_proceso_srtf s = (s1, Some c)"
    using False by (simp add: encontrar_proceso_srtf_def s1_def c_def Let_def)
  have min1: "clave_de (proc s1 c) \<le> clave_de (proc s1 x)" if "x \<in> set (cola_listos s1)" for x
  proof -
    from that have "x \<in> set (cola_listos s)" by (simp add: s1_def)
    from hd_sort_key_menor[OF this, of "clave_srtf s"] show ?thesis
      by (simp add: clave_srtf_de s1_def c_def)
  qed
  show ?thesis
  proof (cases "proceso_en_ejecucion s1")
    case None
    define s2 where "s2 = s1\<lparr>cola_listos := tl (cola_listos s1), proceso_en_ejecucion := Some c\<rparr>"
    have p: "ejecutar_planificador s = evento_nuevo (Inicia c) (a_cpu c s2)"
      using None enc by (simp add: ejecutar_planificador_def Let_def s2_def c_def)
    have run: "run = c" using e by (simp add: p s2_def)
    have "r \<in> set (tl (cola_listos s1))" using r by (simp add: p s2_def)
    then have "r \<in> set (cola_listos s1)" by (metis list.set_sel(2) tl_Nil)
    from min1[OF this] have "clave_de (proc s2 c) \<le> clave_de (proc s2 r)" by (simp add: s2_def)
    then have "clave_de (proc (ejecutar_planificador s) run) \<le> clave_de (proc (ejecutar_planificador s) r)"
      by (simp add: p run)
    then show ?thesis by (rule no_desaloja)
  next
    case (Some run0)
    show ?thesis
    proof (cases "debe_desalojar s1 c run0")
      case False
      have p: "ejecutar_planificador s = s1"
        using Some enc False by (simp add: ejecutar_planificador_def)
      have run: "run = run0" using e Some by (simp add: p)
      have "r \<in> set (cola_listos s1)" using r by (simp add: p)
      from no_desaloja_trans[OF False min1[OF this]] show ?thesis by (simp add: p run)
    next
      case True
      define s2 where "s2 = modificar run0 (\<lambda>q. q\<lparr>estado := LISTO, t_llegada_listo := reloj s1\<rparr>) s1"
      define s3 where "s3 = s2\<lparr>cola_listos := cola_listos s2 @ [run0]\<rparr>"
      define s4 where "s4 = s3\<lparr>cola_listos := sort_key (clave_srtf s3) (cola_listos s3)\<rparr>"
      define ent where "ent = hd (cola_listos s4)"
      define s5 where "s5 = s4\<lparr>cola_listos := tl (cola_listos s4)\<rparr>"
      have p: "ejecutar_planificador s =
          evento_nuevo (Desalojo run0 ent) ((a_cpu ent s5)\<lparr>proceso_en_ejecucion := Some ent\<rparr>)"
        using Some enc True
        by (simp add: ejecutar_planificador_def Let_def s2_def s3_def s4_def s5_def ent_def)
      have run: "run = ent" using e by (simp add: p)
      have "r \<in> set (tl (cola_listos s4))" using r by (simp add: p s5_def)
      then have "r \<in> set (cola_listos s4)" by (metis list.set_sel(2) tl_Nil)
      then have "r \<in> set (cola_listos s3)" by (simp add: s4_def)
      from hd_sort_key_menor[OF this, of "clave_srtf s3"]
      have "clave_de (proc s3 ent) \<le> clave_de (proc s3 r)"
        by (simp add: clave_srtf_de s4_def ent_def)
      then have "clave_de (proc s5 ent) \<le> clave_de (proc s5 r)" by (simp add: s5_def s4_def)
      then have "clave_de (proc (ejecutar_planificador s) run) \<le> clave_de (proc (ejecutar_planificador s) r)"
        by (simp add: p run)
      then show ?thesis by (rule no_desaloja)
    qed
  qed
qed

text \<open>
  C7: at the end of a completed tick (and at the end of construction, which runs the same
  scheduler step) with the CPU busy, no process of the ready queue has less remaining
  time than the running one, and none has the same remaining time and an earlier
  \<open>t_llegada_listo\<close>.
\<close>

theorem srtf_al_final_del_tick:
  assumes "siguiente_tick s = Inr s' \<or> Simulador procesos = Inr s'"
    and "proceso_en_ejecucion s' = Some run"
    and "r \<in> set (cola_listos s')"
  shows "\<not> t_restante (proc s' r) < t_restante (proc s' run) \<and>
         \<not> (t_restante (proc s' r) = t_restante (proc s' run) \<and>
            t_llegada_listo (proc s' r) < t_llegada_listo (proc s' run))"
proof -
  from assms(1) obtain s3 where "s' = ejecutar_planificador s3"
    by (auto simp: siguiente_tick_def tick_def Simulador_def guardar_estado_inicial_def Let_def
             split: sum.splits)
  with planificador_srtf[of s3 run r] assms(2,3) show ?thesis
    by (auto simp: debe_desalojar_def)
qed

text \<open>The scenario of two processes right after construction, and after its first tick.\<close>

definition escenario_t0 :: simulador where
  "escenario_t0 =
     \<lparr>reloj = 0,
      eventos_del_tick = [Arriban [0, 1], Admision 1 3 10, Admision 0 2 30, Inicia 1],
      todos_procesos =
        [\<lparr>id_proceso = 1, tamano = 120, t_arribo = 0, t_irrupcion = 5, estado = LISTO,
          t_restante = 5, id_particion = Some 2, t_fin = - 1, t_primera_ejecucion = - 1,
          t_llegada_listo = 0\<rparr>,
         \<lparr>id_proceso = 2, tamano = 40, t_arribo = 0, t_irrupcion = 3, estado = EJECUCION,
          t_restante = 3, id_particion = Some 3, t_fin = - 1, t_primera_ejecucion = 0,
          t_llegada_listo = 0\<rparr>],
      procesos_nuevos = [], cola_listos = [0], cola_listos_suspendidos = [],
      proceso_en_ejecucion = Some 1, procesos_terminados = [], procesos_reporte = [0, 1],
      particiones =
        [\<lparr>id_part = 0, tamano_part = 100, es_so = True, base = 0, proceso_asignado = None\<rparr>,
         \<lparr>id_part = 1, tamano_part = 250, es_so = False, base = 100, proceso_asignado = None\<rparr>,
         \<lparr>id_part = 2, tamano_part = 150, es_so = False, base = 350, proceso_asignado = Some 0\<rparr>,
         \<lparr>id_part = 3, tamano_part = 50, es_so = False, base = 500, proceso_asignado = Some 1\<rparr>]\<rparr>"

definition escenario_t1 :: simulador where
  "escenario_t1 =
     escenario_t0
       \<lparr>reloj := 1, eventos_del_tick := [],
        todos_procesos :=
          [\<lparr>id_proceso = 1, tamano = 120, t_arribo = 0, t_irrupcion = 5, estado = LISTO,
            t_restante = 5, id_particion = Some 2, t_fin = - 1, t_primera_ejecucion = - 1,
            t_llegada_listo = 0\<rparr>,
           \<lparr>id_proceso = 2, tamano = 40, t_arribo = 0, t_irrupcion = 3, estado = EJECUCION,
            t_restante = 2, id_particion = Some 3, t_fin = - 1, t_primera_ejecucion = 0,
            t_llegada_listo = 0\<rparr>]\<rparr>"

lemma Simulador_escenario: "Simulador escenario = Inr escenario_t0"
  by code_simp

lemma siguiente_tick_escenario: "siguiente_tick escenario_t0 = Inr escenario_t1"
  by code_simp

theorem srtf_al_final_del_tick_witness:
  "siguiente_tick escenario_t0 = Inr escenario_t1 \<and>
   proceso_en_ejecucion escenario_t1 = Some 1 \<and> 0 \<in> set (cola_listos escenario_t1) \<and>
   \<not> t_restante (proc escenario_t1 0) < t_restante (proc escenario_t1 1) \<and>
   \<not> (t_restante (proc escenario_t1 0) = t_restante (proc escenario_t1 1) \<and>
      t_llegada_listo (proc escenario_t1 0) < t_llegada_listo (proc escenario_t1 1))"
proof -
  have a: "siguiente_tick escenario_t0 = Inr escenario_t1 \<or> Simulador [] = Inr escenario_t1"
    using siguiente_tick_escenario by simp
  have b: "proceso_en_ejecucion escenario_t1 = Some 1" by code_simp
  have c: "0 \<in> set (cola_listos escenario_t1)" by code_simp
  from srtf_al_final_del_tick[OF a b c] siguiente_tick_escenario b c show ?thesis by blast
qed

section \<open>The final report\<close>

text \<open>
  What the report holds, written without the loop: the rows of the processes of the
  report list in order of id, a row of numbers for a process whose \<open>t_fin\<close> is set and the
  row of a never admitted process for one that is suspended and fits no partition.
\<close>

definition finalizado :: "simulador \<Rightarrow> nat \<Rightarrow> bool" where
  "finalizado s r = (t_fin (proc s r) \<noteq> - 1)"

definition retorno_de :: "simulador \<Rightarrow> nat \<Rightarrow> int" where
  "retorno_de s r = t_fin (proc s r) - t_arribo (proc s r)"

definition espera_de :: "simulador \<Rightarrow> nat \<Rightarrow> int" where
  "espera_de s r = retorno_de s r - t_irrupcion (proc s r)"

definition respuesta_de :: "simulador \<Rightarrow> nat \<Rightarrow> int" where
  "respuesta_de s r = t_primera_ejecucion (proc s r) - t_arribo (proc s r)"

definition filas_de :: "simulador \<Rightarrow> nat \<Rightarrow> fila_reporte list" where
  "filas_de s r =
     (if finalizado s r then
        [Metricas (id_proceso (proc s r)) (t_arribo (proc s r)) (t_primera_ejecucion (proc s r))
           (t_fin (proc s r)) (t_irrupcion (proc s r)) (espera_de s r) (respuesta_de s r)
           (retorno_de s r)]
      else if estado (proc s r) = L_S \<and> \<not> cabe_en_alguna_particion s r then
        [No_admitido (id_proceso (proc s r)) (t_arribo (proc s r)) (t_irrupcion (proc s r))
           (tamano (proc s r))]
      else [])"

definition por_id :: "simulador \<Rightarrow> nat list" where
  "por_id s = sort_key (\<lambda>r. id_proceso (proc s r)) (procesos_reporte s)"

lemma fila_de_paso:
  "fila_de s a r =
     \<lparr>reporte_procesos = reporte_procesos a @ filas_de s r,
      total_retorno = total_retorno a + (if finalizado s r then retorno_de s r else 0),
      total_espera = total_espera a + (if finalizado s r then espera_de s r else 0),
      total_respuesta = total_respuesta a + (if finalizado s r then respuesta_de s r else 0),
      procesos_contados = procesos_contados a + (if finalizado s r then 1 else 0)\<rparr>"
  by (simp add: fila_de_def filas_de_def finalizado_def retorno_de_def espera_de_def
      respuesta_de_def Let_def)

lemma foldl_fila_de:
  "foldl (fila_de s) a rs =
     \<lparr>reporte_procesos = reporte_procesos a @ concat (map (filas_de s) rs),
      total_retorno = total_retorno a + sum_list (map (retorno_de s) (filter (finalizado s) rs)),
      total_espera = total_espera a + sum_list (map (espera_de s) (filter (finalizado s) rs)),
      total_respuesta = total_respuesta a + sum_list (map (respuesta_de s) (filter (finalizado s) rs)),
      procesos_contados = procesos_contados a + int (length (filter (finalizado s) rs))\<rparr>"
proof (induction rs arbitrary: a)
  case Nil
  show ?case by simp
next
  case (Cons r rs)
  show ?case
    unfolding foldl_Cons Cons.IH
    by (simp add: fila_de_paso)
qed

lemma dividir_no_cero: "b \<noteq> 0 \<Longrightarrow> dividir a b = Inr (Fract a b)"
  by (simp add: dividir_def)

lemma filas_de_reporte [simp]: "filas_de (s\<lparr>procesos_reporte := xs\<rparr>) = filas_de s"
  by (simp add: fun_eq_iff filas_de_def finalizado_def retorno_de_def espera_de_def
      respuesta_de_def cabe_en_alguna_particion_def)

lemma finalizado_reporte [simp]: "finalizado (s\<lparr>procesos_reporte := xs\<rparr>) = finalizado s"
  by (simp add: fun_eq_iff finalizado_def)

lemma metricas_reporte [simp]:
  "retorno_de (s\<lparr>procesos_reporte := xs\<rparr>) = retorno_de s"
  "espera_de (s\<lparr>procesos_reporte := xs\<rparr>) = espera_de s"
  "respuesta_de (s\<lparr>procesos_reporte := xs\<rparr>) = respuesta_de s"
  by (simp_all add: fun_eq_iff retorno_de_def espera_de_def respuesta_de_def)

lemma get_reporte_final_filas:
  "\<exists>rep s'. get_reporte_final s = Inr (rep, s') \<and>
      rf_procesos rep = concat (map (filas_de s) (por_id s))"
proof (cases "filter (finalizado s) (por_id s) = []")
  case True
  show ?thesis
    unfolding get_reporte_final_def Let_def foldl_fila_de
    using True by (simp add: por_id_def[symmetric] dividir_no_cero)
next
  case False
  then have "int (length (filter (finalizado s) (por_id s))) \<noteq> 0" by simp
  then show ?thesis
    unfolding get_reporte_final_def Let_def foldl_fila_de
    using False by (simp add: por_id_def[symmetric] dividir_no_cero)
qed

text \<open>
  C10: \<open>get_reporte_final\<close> returns a report in every state (no division by zero is ever
  reached).  With the clock at 0 the throughput is the constant \<open>"0.000"\<close>; the averages
  are empty when no process of the report has \<open>t_fin\<close> set, and are quotients by the
  (positive) number of such processes otherwise; rows of numbers are produced for the
  processes with \<open>t_fin\<close> set and for no other.
\<close>

theorem get_reporte_final_total:
  "get_reporte_final s =
     Inr (\<lparr>rf_procesos = concat (map (filas_de s) (por_id s)),
           rf_promedios =
             (if filter (finalizado s) (por_id s) = [] then []
              else [(''espera'', Decimales 2
                       (Fract (sum_list (map (espera_de s) (filter (finalizado s) (por_id s))))
                              (int (length (filter (finalizado s) (por_id s)))))),
                    (''respuesta'', Decimales 2
                       (Fract (sum_list (map (respuesta_de s) (filter (finalizado s) (por_id s))))
                              (int (length (filter (finalizado s) (por_id s)))))),
                    (''retorno'', Decimales 2
                       (Fract (sum_list (map (retorno_de s) (filter (finalizado s) (por_id s))))
                              (int (length (filter (finalizado s) (por_id s))))))]),
           rf_throughput =
             (if reloj s > 0
              then Decimales 3 (Fract (int (length (filter (finalizado s) (por_id s)))) (reloj s))
              else Texto ''0.000''),
           rf_procesos_contados = int (length (filter (finalizado s) (por_id s))),
           rf_tiempo_final = reloj s\<rparr>,
          s\<lparr>procesos_reporte := por_id s\<rparr>)"
proof (cases "filter (finalizado s) (por_id s) = []")
  case True
  show ?thesis
    unfolding get_reporte_final_def Let_def foldl_fila_de
    using True by (simp add: por_id_def[symmetric] dividir_no_cero)
next
  case False
  then have "int (length (filter (finalizado s) (por_id s))) \<noteq> 0" by simp
  then show ?thesis
    unfolding get_reporte_final_def Let_def foldl_fila_de
    using False by (simp add: por_id_def[symmetric] dividir_no_cero)
qed


section \<open>What the stages of a tick leave unchanged\<close>

definition en_colas :: "simulador \<Rightarrow> nat multiset" where
  "en_colas s =
     mset (procesos_nuevos s) + mset (cola_listos_suspendidos s) + mset (posibles_victimas s) +
     mset (procesos_terminados s)"

text \<open>
  \<open>conserva s s'\<close>: between \<open>s\<close> and \<open>s'\<close> no process entered or left the system, the
  queues of new and of terminated processes, the report list and the clock are the same,
  and every process has the same id, size, arrival, burst and remaining time.
\<close>

definition conserva :: "simulador \<Rightarrow> simulador \<Rightarrow> bool" where
  "conserva s s' \<longleftrightarrow>
     en_colas s' = en_colas s \<and> procesos_nuevos s' = procesos_nuevos s \<and>
     procesos_terminados s' = procesos_terminados s \<and>
     procesos_reporte s' = procesos_reporte s \<and> reloj s' = reloj s \<and>
     length (todos_procesos s') = length (todos_procesos s) \<and>
     (\<forall>q. datos (proc s' q) = datos (proc s q))"

lemma conserva_refl [simp]: "conserva s s"
  by (simp add: conserva_def)

lemma conserva_trans: "conserva s t \<Longrightarrow> conserva t u \<Longrightarrow> conserva s u"
  by (simp add: conserva_def)

lemma length_todos_asignar [simp]:
  "length (todos_procesos (asignar_proceso k r s)) = length (todos_procesos s)"
  by (simp add: asignar_proceso_def Let_def)

lemma length_todos_liberar [simp]:
  "length (todos_procesos (liberar_particion k s)) = length (todos_procesos s)"
  by (simp add: liberar_particion_def Let_def split: option.splits)

lemma conserva_ordenar_ls: "conserva s (ordenar_ls s)"
  by (simp add: conserva_def en_colas_def ordenar_ls_def posibles_victimas_def)

lemma posibles_admitir [simp]: "posibles_victimas (admitir c k s) = cola_listos s @ [c] @ 
    (case proceso_en_ejecucion s of None \<Rightarrow> [] | Some r \<Rightarrow> [r])"
  by (simp add: admitir_def Let_def posibles_victimas_def)

lemma admitir_campos [simp]:
  "reloj (admitir c k s) = reloj s"
  "procesos_nuevos (admitir c k s) = procesos_nuevos s"
  "proceso_en_ejecucion (admitir c k s) = proceso_en_ejecucion s"
  "procesos_terminados (admitir c k s) = procesos_terminados s"
  "procesos_reporte (admitir c k s) = procesos_reporte s"
  "cola_listos (admitir c k s) = cola_listos s @ [c]"
  "length (todos_procesos (admitir c k s)) = length (todos_procesos s)"
  by (simp_all add: admitir_def Let_def)

lemma ejecutar_swap_campos [simp]:
  "reloj (ejecutar_swap c v k s) = reloj s"
  "procesos_nuevos (ejecutar_swap c v k s) = procesos_nuevos s"
  "procesos_terminados (ejecutar_swap c v k s) = procesos_terminados s"
  "procesos_reporte (ejecutar_swap c v k s) = procesos_reporte s"
  "length (todos_procesos (ejecutar_swap c v k s)) = length (todos_procesos s)"
  by (simp_all add: ejecutar_swap_def Let_def)

lemma conserva_admitir:
  "c \<in> set (cola_listos_suspendidos s) \<Longrightarrow> conserva s (admitir c k s)"
  by (simp add: conserva_def en_colas_def posibles_victimas_def)

lemma conserva_ejecutar_swap:
  assumes "c \<in> set (cola_listos_suspendidos s)" "v \<in> set (posibles_victimas s)"
  shows "conserva s (ejecutar_swap c v k s)"
proof -
  have "mset (cola_listos_suspendidos (ejecutar_swap c v k s)) + mset (posibles_victimas (ejecutar_swap c v k s))
      = mset (cola_listos_suspendidos s) + mset (posibles_victimas s)"
    using assms mset_intercambio[of c "mset (cola_listos_suspendidos s)" v "mset (posibles_victimas s)"]
    by (simp add: posibles_swap)
  then show ?thesis by (simp add: conserva_def en_colas_def add.assoc)
qed

lemma pase_conserva:
  assumes "pase s cs = Inr (Some (ch, s'))" "set cs \<subseteq> set (cola_listos_suspendidos s)"
  shows "conserva s s'"
proof (cases ch)
  case (Colocado c k)
  from pase_Colocado[OF assms(1)[unfolded Colocado]] assms(2) show ?thesis
    by (auto intro: conserva_admitir)
next
  case (Intercambiado v c k)
  from pase_Intercambiado[OF assms(1)[unfolded Intercambiado]]
    pase_victima_residente[OF assms(1)[unfolded Intercambiado]] assms(2)
  show ?thesis by (auto intro: conserva_ejecutar_swap)
qed

text \<open>An invariant of the admission loop holds of its result.\<close>

lemma intentar_admision_regla:
  assumes "intentar_admision s = Inr s'" and "P s"
    and "\<And>t. P t \<Longrightarrow> P (ordenar_ls t)"
    and "\<And>t ch t'. P t \<Longrightarrow> pase t (cola_listos_suspendidos t) = Inr (Some (ch, t')) \<Longrightarrow> P t'"
  shows "P s'"
  using assms(1,2)
proof (induction s rule: intentar_admision.induct)
  case (1 s)
  let ?o = "ordenar_ls s"
  have po: "P ?o" using 1(3) by (rule assms(3))
  show ?case
  proof (cases "pase ?o (cola_listos_suspendidos ?o)")
    case (Inl e)
    with 1(2) show ?thesis by (simp add: intentar_admision.simps[of s])
  next
    case (Inr x)
    show ?thesis
    proof (cases x)
      case None
      with Inr 1(2) po show ?thesis by (simp add: intentar_admision.simps[of s])
    next
      case (Some a)
      obtain ch s2 where a: "a = (ch, s2)" by (cases a)
      have "P s2" using po Inr Some a by (auto intro: assms(4))
      moreover have "intentar_admision s2 = Inr s'"
        using 1(2) Inr Some a by (simp add: intentar_admision.simps[of s])
      ultimately show ?thesis using 1(1)[OF Inr Some a[symmetric]] by simp
    qed
  qed
qed

lemma intentar_admision_conserva:
  assumes "intentar_admision s = Inr s'"
  shows "conserva s s'"
proof (rule intentar_admision_regla[OF assms, where P = "conserva s"])
  show "conserva s s" by simp
  show "conserva s (ordenar_ls t)" if "conserva s t" for t
    using that conserva_ordenar_ls[of t] by (rule conserva_trans)
  show "conserva s t'" if "conserva s t" "pase t (cola_listos_suspendidos t) = Inr (Some (ch, t'))" for t ch t'
    using that(1) pase_conserva[OF that(2)] by (auto intro: conserva_trans)
qed

lemma mset_hd_tl: "xs \<noteq> [] \<Longrightarrow> add_mset (hd xs) (mset (tl xs)) = mset xs"
  by (cases xs) simp_all

lemma sort_key_no_vacia [simp]: "sort_key f xs = [] \<longleftrightarrow> xs = []"
  by (metis length_0_conv length_sort)

lemma datos_a_cpu [simp]: "datos (proc (a_cpu r s) q) = datos (proc s q)"
  by (simp add: a_cpu_def Let_def)

lemma conserva_planificador: "conserva s (ejecutar_planificador s)"
proof (cases "cola_listos s = []")
  case True
  then show ?thesis
    by (simp add: ejecutar_planificador_def encontrar_proceso_srtf_def split: option.splits)
next
  case False
  define s1 where "s1 = s\<lparr>cola_listos := sort_key (clave_srtf s) (cola_listos s)\<rparr>"
  define c where "c = hd (cola_listos s1)"
  have enc: "encontrar_proceso_srtf s = (s1, Some c)"
    using False by (simp add: encontrar_proceso_srtf_def s1_def c_def Let_def)
  have ne: "cola_listos s1 \<noteq> []" using False by (simp add: s1_def)
  have c1: "conserva s s1"
    by (simp add: conserva_def en_colas_def posibles_victimas_def s1_def)
  show ?thesis
  proof (cases "proceso_en_ejecucion s1")
    case None
    define s2 where "s2 = s1\<lparr>cola_listos := tl (cola_listos s1), proceso_en_ejecucion := Some c\<rparr>"
    have p: "ejecutar_planificador s = evento_nuevo (Inicia c) (a_cpu c s2)"
      using None enc by (simp add: ejecutar_planificador_def Let_def s2_def c_def)
    have "conserva s1 (ejecutar_planificador s)"
      using None mset_hd_tl[OF ne]
      by (simp add: p conserva_def en_colas_def posibles_victimas_def s2_def c_def)
    with c1 show ?thesis by (rule conserva_trans)
  next
    case (Some run0)
    show ?thesis
    proof (cases "debe_desalojar s1 c run0")
      case False
      have p: "ejecutar_planificador s = s1"
        using Some enc False by (simp add: ejecutar_planificador_def)
      show ?thesis using c1 by (simp add: p)
    next
      case True
      define s2 where "s2 = modificar run0 (\<lambda>q. q\<lparr>estado := LISTO, t_llegada_listo := reloj s1\<rparr>) s1"
      define s3 where "s3 = s2\<lparr>cola_listos := cola_listos s2 @ [run0]\<rparr>"
      define s4 where "s4 = s3\<lparr>cola_listos := sort_key (clave_srtf s3) (cola_listos s3)\<rparr>"
      define ent where "ent = hd (cola_listos s4)"
      define s5 where "s5 = s4\<lparr>cola_listos := tl (cola_listos s4)\<rparr>"
      have p: "ejecutar_planificador s =
          evento_nuevo (Desalojo run0 ent) ((a_cpu ent s5)\<lparr>proceso_en_ejecucion := Some ent\<rparr>)"
        using Some enc True
        by (simp add: ejecutar_planificador_def Let_def s2_def s3_def s4_def s5_def ent_def)
      have ne4: "cola_listos s4 \<noteq> []" by (simp add: s4_def s3_def)
      have m4: "mset (cola_listos s4) = add_mset run0 (mset (cola_listos s1))"
        by (simp add: s4_def s3_def s2_def)
      have "conserva s1 (ejecutar_planificador s)"
        using Some mset_hd_tl[OF ne4] m4
        by (simp add: p conserva_def en_colas_def posibles_victimas_def s5_def ent_def)
           (simp add: s4_def s3_def s2_def)
      with c1 show ?thesis by (rule conserva_trans)
    qed
  qed
qed

text \<open>The CPU stage.\<close>

lemma servir_cpu_colas:
  assumes "servir_cpu s = Inr s'"
  shows "en_colas s' = en_colas s \<and> procesos_nuevos s' = procesos_nuevos s \<and>
         procesos_reporte s' = procesos_reporte s \<and> reloj s' = reloj s \<and>
         cola_listos s' = cola_listos s \<and> cola_listos_suspendidos s' = cola_listos_suspendidos s \<and>
         length (todos_procesos s') = length (todos_procesos s) \<and>
         (proceso_en_ejecucion s' = proceso_en_ejecucion s \<or> proceso_en_ejecucion s' = None)"
  using assms
  by (auto simp: servir_cpu_def Let_def en_colas_def posibles_victimas_def
           split: option.splits if_splits sum.splits)

definition fijos :: "proceso \<Rightarrow> int \<times> int \<times> int \<times> int" where
  "fijos p = (id_proceso p, tamano p, t_arribo p, t_irrupcion p)"

lemma fijos_campos [simp]:
  "fijos (p\<lparr>estado := e\<rparr>) = fijos p"
  "fijos (p\<lparr>t_restante := n\<rparr>) = fijos p"
  "fijos (p\<lparr>id_particion := i\<rparr>) = fijos p"
  "fijos (p\<lparr>t_fin := t\<rparr>) = fijos p"
  "fijos (p\<lparr>t_primera_ejecucion := t\<rparr>) = fijos p"
  "fijos (p\<lparr>t_llegada_listo := t\<rparr>) = fijos p"
  by (simp_all add: fijos_def)

lemma fijos_datos: "datos p = datos q \<Longrightarrow> fijos p = fijos q"
  by (simp add: datos_def fijos_def)

lemma fijos_modificar [simp]:
  "(\<And>p. fijos (f p) = fijos p) \<Longrightarrow> fijos (proc (modificar r f s) q) = fijos (proc s q)"
  by (simp add: proc_modificar)

lemma fijos_liberar [simp]: "fijos (proc (liberar_particion k s) q) = fijos (proc s q)"
  by (rule fijos_datos) simp

lemma servir_cpu_fijos:
  assumes "servir_cpu s = Inr s'"
  shows "fijos (proc s' q) = fijos (proc s q)"
  using assms
  by (auto simp: servir_cpu_def Let_def split: option.splits if_splits sum.splits)

text \<open>The arrival stage.\<close>

lemma mientras_arriban_take:
  "mientras_arriban P g xs =
     (take (min (length (takeWhile P xs)) (5 - g)) xs,
      drop (min (length (takeWhile P xs)) (5 - g)) xs,
      g + min (length (takeWhile P xs)) (5 - g))"
proof (induction xs arbitrary: g)
  case Nil
  show ?case by simp
next
  case (Cons x xs)
  show ?case
  proof (cases "P x \<and> g < 5")
    case True
    then have "min (Suc (length (takeWhile P xs))) (5 - g) = Suc (min (length (takeWhile P xs)) (5 - (g + 1)))"
      by auto
    with True show ?thesis by (simp add: Cons.IH)
  next
    case False
    then show ?thesis by auto
  qed
qed

lemma pasar_a_ls_campos [simp]:
  "reloj (pasar_a_ls ps s) = reloj s"
  "eventos_del_tick (pasar_a_ls ps s) = eventos_del_tick s"
  "procesos_nuevos (pasar_a_ls ps s) = procesos_nuevos s"
  "cola_listos (pasar_a_ls ps s) = cola_listos s"
  "cola_listos_suspendidos (pasar_a_ls ps s) = cola_listos_suspendidos s @ ps"
  "proceso_en_ejecucion (pasar_a_ls ps s) = proceso_en_ejecucion s"
  "procesos_terminados (pasar_a_ls ps s) = procesos_terminados s"
  "procesos_reporte (pasar_a_ls ps s) = procesos_reporte s"
  "particiones (pasar_a_ls ps s) = particiones s"
  "length (todos_procesos (pasar_a_ls ps s)) = length (todos_procesos s)"
  by (induction ps arbitrary: s; simp)+

lemma datos_pasar_a_ls [simp]: "datos (proc (pasar_a_ls ps s) q) = datos (proc s q)"
proof (induction ps arbitrary: s)
  case Nil
  show ?case by simp
next
  case (Cons p ps)
  have "datos (proc (modificar p (\<lambda>q. q\<lparr>estado := L_S\<rparr>) s) q) = datos (proc s q)" by simp
  then show ?case by (simp add: Cons.IH)
qed

text \<open>
  The number of processes that the two loops of the arrival stage move from the queue
  of new processes to the suspended queue.
\<close>

definition pasan :: "simulador \<Rightarrow> nat" where
  "pasan s =
     (let j1 = min (length (takeWhile (\<lambda>p. t_arribo (proc s p) = reloj s) (procesos_nuevos s)))
                 (5 - gdm_actual s)
      in j1 + min (length (takeWhile (\<lambda>p. t_arribo (proc s p) < reloj s)
                             (drop j1 (procesos_nuevos s))))
                  (5 - (gdm_actual s + j1)))"

lemma llegadas_colas:
  "procesos_nuevos (llegadas s) = drop (pasan s) (procesos_nuevos s) \<and>
   cola_listos_suspendidos (llegadas s) = cola_listos_suspendidos s @ take (pasan s) (procesos_nuevos s) \<and>
   cola_listos (llegadas s) = cola_listos s \<and>
   proceso_en_ejecucion (llegadas s) = proceso_en_ejecucion s \<and>
   procesos_terminados (llegadas s) = procesos_terminados s \<and>
   procesos_reporte (llegadas s) = procesos_reporte s \<and>
   particiones (llegadas s) = particiones s \<and>
   reloj (llegadas s) = reloj s \<and>
   length (todos_procesos (llegadas s)) = length (todos_procesos s)"
proof -
  define j1 where "j1 = min (length (takeWhile (\<lambda>p. t_arribo (proc s p) = reloj s) (procesos_nuevos s)))
                 (5 - gdm_actual s)"
  define j2 where "j2 = min (length (takeWhile (\<lambda>p. t_arribo (proc s p) < reloj s)
                             (drop j1 (procesos_nuevos s))))
                  (5 - (gdm_actual s + j1))"
  have p: "pasan s = j1 + j2" by (simp add: pasan_def Let_def j1_def j2_def)
  have t: "take j1 (procesos_nuevos s) @ take j2 (drop j1 (procesos_nuevos s)) = take (j1 + j2) (procesos_nuevos s)"
    by (simp add: take_add)
  have d: "drop j2 (drop j1 (procesos_nuevos s)) = drop (j1 + j2) (procesos_nuevos s)"
    by (simp add: add.commute)
  show ?thesis
    unfolding p t[symmetric] d[symmetric]
    by (simp add: llegadas_def Let_def mientras_arriban_take j1_def[symmetric] j2_def[symmetric])
qed

lemma datos_llegadas [simp]: "datos (proc (llegadas s) q) = datos (proc s q)"
  by (simp add: llegadas_def Let_def mientras_arriban_take)

lemma en_colas_llegadas: "en_colas (llegadas s) = en_colas s"
proof -
  have "mset (drop (pasan s) (procesos_nuevos s)) + mset (take (pasan s) (procesos_nuevos s))
      = mset (procesos_nuevos s)"
    by (metis add.commute append_take_drop_id mset_append)
  then show ?thesis
    by (simp add: en_colas_def llegadas_colas posibles_victimas_def add.assoc add.left_commute)
qed

text \<open>A whole tick, and construction.\<close>

lemma tick_etapas:
  assumes "tick s = Inr s'"
  obtains s1 s3 where "servir_cpu (s\<lparr>eventos_del_tick := []\<rparr>) = Inr s1"
    and "intentar_admision (llegadas s1) = Inr s3" and "s' = ejecutar_planificador s3"
  using assms by (auto simp: tick_def split: sum.splits)

lemma conserva_colas:
  "conserva s s' \<Longrightarrow> en_colas s' = en_colas s \<and> procesos_reporte s' = procesos_reporte s"
  by (simp add: conserva_def)

lemma en_colas_eventos [simp]: "en_colas (s\<lparr>eventos_del_tick := es\<rparr>) = en_colas s"
  by (simp add: en_colas_def posibles_victimas_def)

lemma en_colas_reloj [simp]: "en_colas (s\<lparr>reloj := t\<rparr>) = en_colas s"
  by (simp add: en_colas_def posibles_victimas_def)

lemma tick_colas:
  assumes "tick s = Inr s'"
  shows "en_colas s' = en_colas s \<and> procesos_reporte s' = procesos_reporte s"
proof -
  from assms obtain s1 s3 where a: "servir_cpu (s\<lparr>eventos_del_tick := []\<rparr>) = Inr s1"
    and b: "intentar_admision (llegadas s1) = Inr s3" and c: "s' = ejecutar_planificador s3"
    by (rule tick_etapas)
  from servir_cpu_colas[OF a] have 1: "en_colas s1 = en_colas s" "procesos_reporte s1 = procesos_reporte s"
    by simp_all
  have 2: "en_colas (llegadas s1) = en_colas s1" "procesos_reporte (llegadas s1) = procesos_reporte s1"
    by (simp_all add: en_colas_llegadas llegadas_colas)
  note 3 = conserva_colas[OF intentar_admision_conserva[OF b]]
  note 4 = conserva_colas[OF conserva_planificador[of s3]]
  show ?thesis using 1 2 3 4 by (simp add: c)
qed

lemma correr_colas:
  "correr n s = Inr s' \<Longrightarrow> en_colas s' = en_colas s \<and> procesos_reporte s' = procesos_reporte s"
proof (induction n arbitrary: s)
  case 0
  then show ?case by simp
next
  case (Suc n)
  from Suc.prems obtain t where t: "siguiente_tick s = Inr t" and c: "correr n t = Inr s'"
    by (auto split: sum.splits)
  from t have "en_colas t = en_colas s \<and> procesos_reporte t = procesos_reporte s"
    using tick_colas[of "s\<lparr>reloj := (if reloj s = 0 then 1 else reloj s + 1)\<rparr>" t]
    by (simp add: siguiente_tick_def)
  with Suc.IH[OF c] show ?case by simp
qed

definition seleccion :: "proceso list \<Rightarrow> nat list" where
  "seleccion procesos = take 10 (sort_key (clave_arribo procesos) [0..<length procesos])"

lemma length_seleccion: "length (seleccion procesos) = min 10 (length procesos)"
  by (simp add: seleccion_def min.commute)

lemma preparar_colas_campos:
  "procesos_nuevos (preparar_colas (estado_vacio procesos)) = seleccion procesos"
  "procesos_reporte (preparar_colas (estado_vacio procesos)) = seleccion procesos"
  "cola_listos (preparar_colas (estado_vacio procesos)) = []"
  "cola_listos_suspendidos (preparar_colas (estado_vacio procesos)) = []"
  "proceso_en_ejecucion (preparar_colas (estado_vacio procesos)) = None"
  "procesos_terminados (preparar_colas (estado_vacio procesos)) = []"
  "reloj (preparar_colas (estado_vacio procesos)) = 0"
  "todos_procesos (preparar_colas (estado_vacio procesos)) = reiniciar_todos (seleccion procesos) procesos"
  "particiones (preparar_colas (estado_vacio procesos)) = particiones (estado_vacio procesos)"
  by (simp_all add: preparar_colas_def estado_vacio_def Let_def seleccion_def)

lemma arribos_iniciales_campos [simp]:
  "reloj (arribos_iniciales ps s) = reloj s"
  "procesos_nuevos (arribos_iniciales ps s) = procesos_nuevos s"
  "cola_listos (arribos_iniciales ps s) = cola_listos s"
  "cola_listos_suspendidos (arribos_iniciales ps s) = cola_listos_suspendidos s @ ps"
  "proceso_en_ejecucion (arribos_iniciales ps s) = proceso_en_ejecucion s"
  "procesos_terminados (arribos_iniciales ps s) = procesos_terminados s"
  "procesos_reporte (arribos_iniciales ps s) = procesos_reporte s"
  "particiones (arribos_iniciales ps s) = particiones s"
  "length (todos_procesos (arribos_iniciales ps s)) = length (todos_procesos s)"
  by (induction ps arbitrary: s; simp)+

lemma guardar_estado_inicial_etapas:
  assumes "guardar_estado_inicial s = Inr s'"
  obtains s2 s3 where
    "s2 = arribos_iniciales (takeWhile (\<lambda>p. t_arribo (proc s p) = 0) (procesos_nuevos s))
            ((if takeWhile (\<lambda>p. t_arribo (proc s p) = 0) (procesos_nuevos s) \<noteq> []
              then evento_nuevo (Arriban (takeWhile (\<lambda>p. t_arribo (proc s p) = 0) (procesos_nuevos s)))
              else (\<lambda>x. x))
             (s\<lparr>procesos_nuevos := dropWhile (\<lambda>p. t_arribo (proc s p) = 0) (procesos_nuevos s)\<rparr>))"
    and "intentar_admision s2 = Inr s3" and "s' = ejecutar_planificador s3"
  using assms by (auto simp: guardar_estado_inicial_def Let_def split: sum.splits if_splits)

lemma guardar_estado_inicial_colas:
  assumes "guardar_estado_inicial s = Inr s'"
  shows "en_colas s' = en_colas s \<and> procesos_reporte s' = procesos_reporte s"
proof -
  from assms obtain s2 s3 where
    s2: "s2 = arribos_iniciales (takeWhile (\<lambda>p. t_arribo (proc s p) = 0) (procesos_nuevos s))
            ((if takeWhile (\<lambda>p. t_arribo (proc s p) = 0) (procesos_nuevos s) \<noteq> []
              then evento_nuevo (Arriban (takeWhile (\<lambda>p. t_arribo (proc s p) = 0) (procesos_nuevos s)))
              else (\<lambda>x. x))
             (s\<lparr>procesos_nuevos := dropWhile (\<lambda>p. t_arribo (proc s p) = 0) (procesos_nuevos s)\<rparr>))"
    and b: "intentar_admision s2 = Inr s3" and c: "s' = ejecutar_planificador s3"
    by (rule guardar_estado_inicial_etapas)
  have "mset (dropWhile (\<lambda>p. t_arribo (proc s p) = 0) (procesos_nuevos s)) +
        mset (takeWhile (\<lambda>p. t_arribo (proc s p) = 0) (procesos_nuevos s)) = mset (procesos_nuevos s)"
    by (metis add.commute mset_append takeWhile_dropWhile_id)
  then have 2: "en_colas s2 = en_colas s" "procesos_reporte s2 = procesos_reporte s"
    unfolding s2 by (auto simp: en_colas_def posibles_victimas_def add.assoc add.left_commute)
  note 3 = conserva_colas[OF intentar_admision_conserva[OF b]]
  note 4 = conserva_colas[OF conserva_planificador[of s3]]
  show ?thesis using 2 3 4 by (simp add: c)
qed

lemma simular_colas:
  assumes "simular procesos n = Inr s"
  shows "en_colas s = mset (seleccion procesos) \<and> procesos_reporte s = seleccion procesos"
proof -
  from assms obtain s0 where s0: "Simulador procesos = Inr s0" and c: "correr n s0 = Inr s"
    by (auto simp: simular_def split: sum.splits)
  from s0 have "en_colas s0 = en_colas (preparar_colas (estado_vacio procesos)) \<and>
      procesos_reporte s0 = procesos_reporte (preparar_colas (estado_vacio procesos))"
    unfolding Simulador_def by (rule guardar_estado_inicial_colas)
  then have "en_colas s0 = mset (seleccion procesos) \<and> procesos_reporte s0 = seleccion procesos"
    by (simp add: en_colas_def posibles_victimas_def preparar_colas_campos)
  with correr_colas[OF c] show ?thesis by simp
qed

section \<open>Conservation\<close>

text \<open>
  C8: in the state after construction and any number of ticks, the processes in the
  queues of new, suspended, ready and terminated processes and on the CPU number
  \<open>min 10 n\<close> for \<open>n\<close> supplied processes, the size of the cohort chosen at construction;
  taken together with multiplicity they are the processes of the report list, which is
  the selection made at construction.
\<close>

theorem conservacion:
  assumes "simular procesos n = Inr s"
  shows "length (procesos_nuevos s) + length (cola_listos_suspendidos s) + length (cola_listos s) +
           (if proceso_en_ejecucion s = None then 0 else 1) + length (procesos_terminados s)
         = min 10 (length procesos) \<and>
         mset (procesos_nuevos s) + mset (cola_listos_suspendidos s) + mset (cola_listos s) +
           mset_set (set_option (proceso_en_ejecucion s)) + mset (procesos_terminados s)
         = mset (procesos_reporte s) \<and>
         procesos_reporte s = seleccion procesos"
proof -
  note c = simular_colas[OF assms]
  have m: "mset (posibles_victimas s) = mset (cola_listos s) + mset_set (set_option (proceso_en_ejecucion s))"
    by (simp add: posibles_victimas_def split: option.splits)
  have e: "en_colas s = mset (procesos_nuevos s) + mset (cola_listos_suspendidos s) + mset (cola_listos s) +
           mset_set (set_option (proceso_en_ejecucion s)) + mset (procesos_terminados s)"
    by (simp add: en_colas_def m add.assoc)
  have "size (en_colas s) = min 10 (length procesos)"
    using c by (simp add: length_seleccion)
  moreover have "size (en_colas s) = length (procesos_nuevos s) + length (cola_listos_suspendidos s) +
      length (cola_listos s) + (if proceso_en_ejecucion s = None then 0 else 1) + length (procesos_terminados s)"
    by (simp add: en_colas_def posibles_victimas_def split: option.splits)
  ultimately show ?thesis using c e by simp
qed

lemma simular_escenario_1: "simular escenario 1 = Inr escenario_t1"
  by (simp add: simular_def Simulador_escenario siguiente_tick_escenario)

theorem conservacion_witness:
  "simular escenario 1 = Inr escenario_t1 \<and>
   length (procesos_nuevos escenario_t1) + length (cola_listos_suspendidos escenario_t1) +
     length (cola_listos escenario_t1) +
     (if proceso_en_ejecucion escenario_t1 = None then 0 else 1) +
     length (procesos_terminados escenario_t1) = min 10 (length escenario) \<and>
   min 10 (length escenario) = 2"
proof -
  have "min 10 (length escenario) = 2" by (simp add: escenario_def)
  with conservacion[OF simular_escenario_1] simular_escenario_1 show ?thesis by simp
qed

section \<open>Selection of the cohort\<close>

lemma reiniciar_idem [simp]: "reiniciar (reiniciar p) = reiniciar p"
  by (simp add: reiniciar_def)

lemma length_reiniciar_todos [simp]: "length (reiniciar_todos rs ps) = length ps"
  by (induction rs arbitrary: ps) simp_all

lemma nth_reiniciar_todos:
  "reiniciar_todos rs ps ! q = (if q \<in> set rs \<and> q < length ps then reiniciar (ps ! q) else ps ! q)"
proof (induction rs arbitrary: ps)
  case Nil
  show ?case by simp
next
  case (Cons r rs)
  show ?case by (simp add: Cons.IH nth_actualizado)
qed

lemma seleccion_propiedades:
  "distinct (seleccion procesos) \<and> set (seleccion procesos) \<subseteq> {..<length procesos} \<and>
   sorted (map (clave_arribo procesos) (seleccion procesos))"
proof -
  let ?xs = "sort_key (clave_arribo procesos) [0..<length procesos]"
  have "distinct ?xs" by simp
  then have 1: "distinct (seleccion procesos)" unfolding seleccion_def by (rule distinct_take)
  have "set (seleccion procesos) \<subseteq> set ?xs" unfolding seleccion_def by (rule set_take_subset)
  then have 2: "set (seleccion procesos) \<subseteq> {..<length procesos}" by auto
  have "sorted (map (clave_arribo procesos) ?xs)" by simp
  then have 3: "sorted (map (clave_arribo procesos) (seleccion procesos))"
    unfolding seleccion_def take_map[symmetric] by (rule sorted_wrt_take)
  from 1 2 3 show ?thesis by simp
qed

lemma seleccion_primeros:
  assumes "r < length procesos" "r \<notin> set (seleccion procesos)" "q \<in> set (seleccion procesos)"
  shows "clave_arribo procesos q \<le> clave_arribo procesos r"
proof -
  let ?xs = "sort_key (clave_arribo procesos) [0..<length procesos]"
  have "r \<in> set (take 10 ?xs @ drop 10 ?xs)" using assms(1) by simp
  then have r: "r \<in> set (drop 10 ?xs)" using assms(2) unfolding seleccion_def set_append by blast
  have "sorted (map (clave_arribo procesos) (take 10 ?xs @ drop 10 ?xs))" by simp
  then have "\<forall>x\<in>set (take 10 ?xs). \<forall>y\<in>set (drop 10 ?xs). clave_arribo procesos x \<le> clave_arribo procesos y"
    unfolding map_append sorted_append by simp
  with r assms(3) show ?thesis by (simp add: seleccion_def)
qed

lemma en_colas_miembro:
  "r \<in># en_colas s \<longleftrightarrow>
     r \<in> set (procesos_nuevos s) \<or> r \<in> set (cola_listos_suspendidos s) \<or> r \<in> set (cola_listos s) \<or>
     proceso_en_ejecucion s = Some r \<or> r \<in> set (procesos_terminados s)"
  by (auto simp: en_colas_def posibles_victimas_def split: option.splits)

text \<open>
  C9: \<open>_preparar_colas\<close>, the first step of the constructor, makes the queue of new
  processes and the report list the first \<open>min 10 n\<close> of the \<open>n\<close> supplied processes in
  ascending order of \<open>(t_arribo, id_proceso)\<close>, each taken once; every selected process
  is reset (state NUEVO, remaining time equal to the burst, no partition, \<open>t_fin\<close>,
  \<open>t_primera_ejecucion\<close> and \<open>t_llegada_listo\<close> at \<open>-1\<close>); a process left out is not
  touched, has a key no smaller than every selected one, and is in no queue and not in
  the report list of any state reached afterwards.
\<close>

theorem seleccion_de_cohorte:
  "procesos_nuevos (preparar_colas (estado_vacio procesos)) = seleccion procesos \<and>
   procesos_reporte (preparar_colas (estado_vacio procesos)) = seleccion procesos \<and>
   seleccion procesos = take 10 (sort_key (clave_arribo procesos) [0..<length procesos]) \<and>
   length (seleccion procesos) = min 10 (length procesos) \<and>
   distinct (seleccion procesos) \<and>
   sorted (map (\<lambda>r. (t_arribo (procesos ! r), id_proceso (procesos ! r))) (seleccion procesos)) \<and>
   (\<forall>r\<in>set (seleccion procesos).
      r < length procesos \<and>
      proc (preparar_colas (estado_vacio procesos)) r =
        (procesos ! r)\<lparr>estado := NUEVO, t_restante := t_irrupcion (procesos ! r),
                        id_particion := None, t_fin := - 1, t_primera_ejecucion := - 1,
                        t_llegada_listo := - 1\<rparr>) \<and>
   (\<forall>r < length procesos. r \<notin> set (seleccion procesos) \<longrightarrow>
      proc (preparar_colas (estado_vacio procesos)) r = procesos ! r \<and>
      (\<forall>q\<in>set (seleccion procesos).
         (t_arribo (procesos ! q), id_proceso (procesos ! q))
           \<le> (t_arribo (procesos ! r), id_proceso (procesos ! r))) \<and>
      (\<forall>n s. simular procesos n = Inr s \<longrightarrow>
         r \<notin> set (procesos_nuevos s) \<and> r \<notin> set (cola_listos_suspendidos s) \<and>
         r \<notin> set (cola_listos s) \<and> proceso_en_ejecucion s \<noteq> Some r \<and>
         r \<notin> set (procesos_terminados s) \<and> r \<notin> set (procesos_reporte s)))"
proof -
  let ?s0 = "preparar_colas (estado_vacio procesos)"
  note p = seleccion_propiedades[of procesos]
  have c: "clave_arribo procesos = (\<lambda>r. (t_arribo (procesos ! r), id_proceso (procesos ! r)))"
    by (simp add: fun_eq_iff clave_arribo_def)
  have a: "r < length procesos \<and> proc ?s0 r = (procesos ! r)\<lparr>estado := NUEVO, t_restante := t_irrupcion (procesos ! r),
                        id_particion := None, t_fin := - 1, t_primera_ejecucion := - 1,
                        t_llegada_listo := - 1\<rparr>" if "r \<in> set (seleccion procesos)" for r
  proof -
    from that p have "r < length procesos" by auto
    with that show ?thesis
      by (simp add: preparar_colas_campos nth_reiniciar_todos reiniciar_def)
  qed
  have b1: "proc ?s0 r = procesos ! r" if "r \<notin> set (seleccion procesos)" for r
    using that by (simp add: preparar_colas_campos nth_reiniciar_todos)
  have b2: "(t_arribo (procesos ! q), id_proceso (procesos ! q))
           \<le> (t_arribo (procesos ! r), id_proceso (procesos ! r))"
    if "r < length procesos" "r \<notin> set (seleccion procesos)" "q \<in> set (seleccion procesos)" for r q
    using seleccion_primeros[OF that] by (simp add: clave_arribo_def)
  have b3: "r \<notin> set (procesos_nuevos s) \<and> r \<notin> set (cola_listos_suspendidos s) \<and>
         r \<notin> set (cola_listos s) \<and> proceso_en_ejecucion s \<noteq> Some r \<and>
         r \<notin> set (procesos_terminados s) \<and> r \<notin> set (procesos_reporte s)"
    if "r \<notin> set (seleccion procesos)" "simular procesos n = Inr s" for r n s
  proof -
    from simular_colas[OF that(2)] have e: "en_colas s = mset (seleccion procesos)"
      and rp: "procesos_reporte s = seleccion procesos" by simp_all
    from that(1) have "\<not> r \<in># en_colas s" by (simp add: e)
    then show ?thesis using that(1) by (simp add: en_colas_miembro rp)
  qed
  have s: "sorted (map (\<lambda>r. (t_arribo (procesos ! r), id_proceso (procesos ! r))) (seleccion procesos))"
    using p unfolding c by simp
  have d: "distinct (seleccion procesos)" using p by simp
  have f: "procesos_nuevos ?s0 = seleccion procesos" "procesos_reporte ?s0 = seleccion procesos"
    by (simp_all add: preparar_colas_campos)
  have g: "seleccion procesos = take 10 (sort_key (clave_arribo procesos) [0..<length procesos])"
    by (simp add: seleccion_def)
  from f g length_seleccion[of procesos] d s a b1 b2 b3 show ?thesis by blast
qed

definition once :: "proceso list" where
  "once = map (\<lambda>i. Proceso i 10 (12 - i) 4) [1, 2, 3, 4, 5, 6, 7, 8, 9, 10, 11]"

lemma seleccion_once: "seleccion once = [10, 9, 8, 7, 6, 5, 4, 3, 2, 1]"
  by code_simp

lemma simular_once: "simular once 0 = Inr (projr (simular once 0))"
  by code_simp

theorem seleccion_de_cohorte_witness:
  "seleccion once = [10, 9, 8, 7, 6, 5, 4, 3, 2, 1] \<and> 0 < length once \<and>
   simular once 0 = Inr (projr (simular once 0)) \<and>
   estado (proc (preparar_colas (estado_vacio once)) 1) = NUEVO \<and>
   proc (preparar_colas (estado_vacio once)) 0 = once ! 0 \<and>
   (t_arribo (once ! 1), id_proceso (once ! 1)) \<le> (t_arribo (once ! 0), id_proceso (once ! 0)) \<and>
   0 \<notin> set (procesos_nuevos (projr (simular once 0))) \<and>
   0 \<notin> set (procesos_reporte (projr (simular once 0)))"
proof -
  have l: "0 < length once" by (simp add: once_def)
  have n: "0 \<notin> set (seleccion once)" and m: "1 \<in> set (seleccion once)"
    by (simp_all add: seleccion_once)
  note t = seleccion_de_cohorte[of once]
  from t m have a: "proc (preparar_colas (estado_vacio once)) 1 =
        (once ! 1)\<lparr>estado := NUEVO, t_restante := t_irrupcion (once ! 1),
                        id_particion := None, t_fin := - 1, t_primera_ejecucion := - 1,
                        t_llegada_listo := - 1\<rparr>" by blast
  from t l n have b: "proc (preparar_colas (estado_vacio once)) 0 = once ! 0" by blast
  from t l n m have c: "(t_arribo (once ! 1), id_proceso (once ! 1)) \<le> (t_arribo (once ! 0), id_proceso (once ! 0))"
    by blast
  from t l n simular_once have d: "0 \<notin> set (procesos_nuevos (projr (simular once 0))) \<and>
     0 \<notin> set (procesos_reporte (projr (simular once 0)))" by blast
  from a have "estado (proc (preparar_colas (estado_vacio once)) 1) = NUEVO" by simp
  with l b c d seleccion_once simular_once show ?thesis by blast
qed

subsection \<open>The console variant\<close>

text \<open>
  simulador.py, the console program, has its own \<open>_preparar_colas\<close>: it keeps only the
  processes whose id is between 1 and 10 before sorting.  On a list whose ids are all in
  that range it selects what the engine selects.
\<close>

definition seleccion_consola :: "proceso list \<Rightarrow> nat list" where
  "seleccion_consola procesos =
     take 10 (sort_key (clave_arribo procesos)
       (filter (\<lambda>r. 1 \<le> id_proceso (procesos ! r) \<and> id_proceso (procesos ! r) \<le> 10)
          [0..<length procesos]))"

lemma seleccion_consola_igual:
  assumes "\<forall>p\<in>set procesos. 1 \<le> id_proceso p \<and> id_proceso p \<le> 10"
  shows "seleccion_consola procesos = seleccion procesos"
proof -
  have "filter (\<lambda>r. 1 \<le> id_proceso (procesos ! r) \<and> id_proceso (procesos ! r) \<le> 10) [0..<length procesos]
      = [0..<length procesos]"
    using assms by (intro filter_True) simp
  then show ?thesis by (simp add: seleccion_consola_def seleccion_def)
qed

section \<open>Admission of arrivals\<close>

lemma sorted_takeWhile_filter:
  assumes "sorted (map a xs)"
  shows "filter (\<lambda>x. a x \<le> (t::int)) xs = takeWhile (\<lambda>x. a x \<le> t) xs"
  using assms
proof (induction xs)
  case Nil
  show ?case by simp
next
  case (Cons x xs)
  show ?case
  proof (cases "a x \<le> t")
    case True
    with Cons show ?thesis by simp
  next
    case False
    with Cons.prems have "\<forall>y\<in>set xs. \<not> a y \<le> t" by auto
    then have "filter (\<lambda>x. a x \<le> t) xs = []" by (simp add: filter_empty_conv)
    with False show ?thesis by simp
  qed
qed

lemma sorted_drop_takeWhile:
  assumes "sorted (map a xs)" "x \<in> set (drop (length (takeWhile (\<lambda>x. a x \<le> (t::int)) xs)) xs)"
  shows "\<not> a x \<le> t"
proof -
  have d: "drop (length (takeWhile (\<lambda>x. a x \<le> t) xs)) xs = dropWhile (\<lambda>x. a x \<le> t) xs"
    by (rule dropWhile_eq_drop[symmetric])
  show ?thesis
  proof (cases "dropWhile (\<lambda>x. a x \<le> t) xs")
    case Nil
    with assms(2) d show ?thesis by simp
  next
    case (Cons y ys)
    then have y: "\<not> a y \<le> t" by (metis hd_dropWhile list.discI list.sel(1))
    have "sorted (map a (takeWhile (\<lambda>x. a x \<le> t) xs @ dropWhile (\<lambda>x. a x \<le> t) xs))"
      using assms(1) by simp
    then have "sorted (map a (y # ys))" unfolding Cons map_append sorted_append by simp
    with assms(2) d Cons have "a y \<le> a x" by auto
    with y show ?thesis by simp
  qed
qed

text \<open>
  The two loops of the arrival stage, on a queue sorted by arrival time in which a
  process overdue before this tick can only be waiting because the system was full.
\<close>

lemma dos_bucles:
  fixes a :: "nat \<Rightarrow> int"
  assumes s: "sorted (map a xs)" and lleno: "(\<exists>x\<in>set xs. a x < t) \<longrightarrow> 4 \<le> g"
  defines "j1 \<equiv> min (length (takeWhile (\<lambda>x. a x = t) xs)) (5 - g)"
  defines "j2 \<equiv> min (length (takeWhile (\<lambda>x. a x < t) (drop j1 xs))) (5 - (g + j1))"
  shows "j1 + j2 = min (length (filter (\<lambda>x. a x \<le> t) xs)) (5 - (g::nat))"
proof (cases "\<exists>x\<in>set xs. a x < t")
  case False
  then have "takeWhile (\<lambda>x. a x = t) xs = takeWhile (\<lambda>x. a x \<le> t) xs"
    by (intro takeWhile_cong) auto
  then have 1: "j1 = min (length (filter (\<lambda>x. a x \<le> t) xs)) (5 - g)"
    by (simp add: j1_def sorted_takeWhile_filter[OF s])
  have "\<forall>x\<in>set (drop j1 xs). \<not> a x < t" using False by (auto dest: in_set_dropD)
  then have "takeWhile (\<lambda>x. a x < t) (drop j1 xs) = []"
    by (cases "drop j1 xs") auto
  then have "j2 = 0" by (simp add: j2_def)
  with 1 show ?thesis by simp
next
  case True
  then have g: "4 \<le> g" using lleno by simp
  from True obtain y ys where xs: "xs = y # ys" by (cases xs) auto
  have y: "a y < t"
  proof -
    from True obtain x where "x \<in> set xs" "a x < t" by blast
    moreover have "\<forall>x\<in>set xs. a y \<le> a x" using s xs by auto
    ultimately show ?thesis by fastforce
  qed
  have z: "j1 = 0" using y by (simp add: j1_def xs)
  have l1: "1 \<le> length (takeWhile (\<lambda>x. a x < t) xs)" using y by (simp add: xs)
  have l2: "1 \<le> length (filter (\<lambda>x. a x \<le> t) xs)" using y by (simp add: xs)
  have "j2 = min (length (takeWhile (\<lambda>x. a x < t) xs)) (5 - g)" by (simp add: j2_def z)
  also have "\<dots> = 5 - g" using l1 g by linarith
  also have "\<dots> = min (length (filter (\<lambda>x. a x \<le> t) xs)) (5 - g)" using l2 g by linarith
  finally show ?thesis by (simp add: z)
qed

lemma gdm_conserva: "conserva s s' \<Longrightarrow> gdm_actual s' = gdm_actual s"
proof -
  assume c: "conserva s s'"
  have e: "size (en_colas u) = length (procesos_nuevos u) + gdm_actual u + length (procesos_terminados u)" for u
    by (simp add: en_colas_def gdm_actual_def posibles_victimas_def split: option.splits)
  from c have "size (en_colas s') = size (en_colas s)" "procesos_nuevos s' = procesos_nuevos s"
    "procesos_terminados s' = procesos_terminados s" by (simp_all add: conserva_def)
  with e[of s] e[of s'] show ?thesis by simp
qed

lemma conserva_fijos: "conserva s s' \<Longrightarrow> fijos (proc s' q) = fijos (proc s q)"
  by (rule fijos_datos) (simp add: conserva_def)

lemma fijos_arribo: "fijos p = fijos q \<Longrightarrow> t_arribo p = t_arribo q \<and> id_proceso p = id_proceso q \<and> tamano p = tamano q"
  by (simp add: fijos_def)

lemma clave_arribo_fijos:
  assumes "\<And>q. fijos (ps' ! q) = fijos (ps ! q)"
  shows "clave_arribo ps' = clave_arribo ps"
proof
  fix r
  from fijos_arribo[OF assms[of r]] show "clave_arribo ps' r = clave_arribo ps r"
    by (simp add: clave_arribo_def)
qed

text \<open>
  What holds of the queue of new processes between ticks: it is in order of
  \<open>(t_arribo, id_proceso)\<close>, and a process that is due is still in it only when the
  system holds five processes or more.
\<close>

definition espera_justificada :: "simulador \<Rightarrow> bool" where
  "espera_justificada s \<longleftrightarrow>
     0 \<le> reloj s \<and>
     sorted (map (clave_arribo (todos_procesos s)) (procesos_nuevos s)) \<and>
     (list_ex (\<lambda>r. t_arribo (proc s r) \<le> reloj s) (procesos_nuevos s) \<longrightarrow> 5 \<le> gdm_actual s)"

lemma sorted_clave_arribo:
  "sorted (map (clave_arribo ps) xs) \<Longrightarrow> sorted (map (\<lambda>r. t_arribo (ps ! r)) xs)"
proof -
  assume "sorted (map (clave_arribo ps) xs)"
  then have "sorted_wrt (\<lambda>x y. clave_arribo ps x \<le> clave_arribo ps y) xs"
    by (simp add: sorted_map)
  then have "sorted_wrt (\<lambda>x y. t_arribo (ps ! x) \<le> t_arribo (ps ! y)) xs"
  proof (rule sorted_wrt_mono_rel[rotated])
    fix x y
    assume "clave_arribo ps x \<le> clave_arribo ps y"
    then show "t_arribo (ps ! x) \<le> t_arribo (ps ! y)"
      by (auto simp: clave_arribo_def)
  qed
  then show ?thesis by (simp add: sorted_map)
qed

lemma take_takeWhile: "k \<le> length (takeWhile P xs) \<Longrightarrow> take k (takeWhile P xs) = take k xs"
proof -
  assume k: "k \<le> length (takeWhile P xs)"
  have "takeWhile P xs = take (length (takeWhile P xs)) xs"
    by (rule takeWhile_eq_take)
  then have "take k (takeWhile P xs) = take k (take (length (takeWhile P xs)) xs)" by simp
  also have "\<dots> = take k xs" using k by (simp add: min_def)
  finally show ?thesis .
qed

lemma gdm_llegadas: "gdm_actual (llegadas s) = gdm_actual s + min (pasan s) (length (procesos_nuevos s))"
  by (simp add: gdm_actual_def llegadas_colas)

lemma fijos_llegadas: "fijos (proc (llegadas s) q) = fijos (proc s q)"
  by (rule fijos_datos) simp

text \<open>One tick from a state in which waiting is justified.\<close>

lemma tick_arribos:
  assumes j: "espera_justificada s" and t: "siguiente_tick s = Inr s'"
  obtains s1 where
    "servir_cpu (s\<lparr>reloj := reloj s + 1, eventos_del_tick := []\<rparr>) = Inr s1"
    "procesos_nuevos s1 = procesos_nuevos s" "reloj s1 = reloj s + 1"
    "sorted (map (clave_arribo (todos_procesos s1)) (procesos_nuevos s1))"
    "pasan s1 = min (length (filter (\<lambda>r. t_arribo (proc s1 r) \<le> reloj s1) (procesos_nuevos s1)))
                    (5 - gdm_actual s1)"
    "take (pasan s1) (procesos_nuevos s1) =
       take (pasan s1) (filter (\<lambda>r. t_arribo (proc s1 r) \<le> reloj s1) (procesos_nuevos s1))"
    "procesos_nuevos s' = drop (pasan s1) (procesos_nuevos s)"
    "gdm_actual s' = gdm_actual s1 + pasan s1" "reloj s' = reloj s + 1"
    "espera_justificada s'"
proof -
  from j have r0: "0 \<le> reloj s"
    and so: "sorted (map (clave_arribo (todos_procesos s)) (procesos_nuevos s))"
    and ll: "list_ex (\<lambda>r. t_arribo (proc s r) \<le> reloj s) (procesos_nuevos s) \<longrightarrow> 5 \<le> gdm_actual s"
    by (simp_all add: espera_justificada_def)
  let ?sb = "s\<lparr>reloj := reloj s + 1\<rparr>"
  have "(if reloj s = 0 then 1 else reloj s + 1) = reloj s + 1" by simp
  with t have tk: "tick ?sb = Inr s'" by (simp only: siguiente_tick_def)
  from tk obtain s1 s3 where a: "servir_cpu (?sb\<lparr>eventos_del_tick := []\<rparr>) = Inr s1"
    and b: "intentar_admision (llegadas s1) = Inr s3" and c: "s' = ejecutar_planificador s3"
    by (rule tick_etapas)
  note sc = servir_cpu_colas[OF a]
  have n1: "procesos_nuevos s1 = procesos_nuevos s" and r1: "reloj s1 = reloj s + 1"
    using sc by simp_all
  have f1: "fijos (proc s1 q) = fijos (proc s q)" for q
    using servir_cpu_fijos[OF a, of q] by simp
  have ca1: "clave_arribo (todos_procesos s1) = clave_arribo (todos_procesos s)"
    by (rule clave_arribo_fijos) (rule f1)
  have ar1: "t_arribo (proc s1 q) = t_arribo (proc s q)" for q
    using fijos_arribo[OF f1[of q]] by simp
  have g1: "gdm_actual s \<le> gdm_actual s1 + 1"
    using sc by (auto simp: gdm_actual_def)
  have so1: "sorted (map (clave_arribo (todos_procesos s1)) (procesos_nuevos s1))"
    using so by (simp add: ca1 n1)
  let ?a = "\<lambda>r. t_arribo (proc s1 r)"
  let ?xs = "procesos_nuevos s1"
  let ?t = "reloj s1"
  let ?g = "gdm_actual s1"
  let ?deb = "filter (\<lambda>r. ?a r \<le> ?t) ?xs"
  have sa: "sorted (map ?a ?xs)" using so1 by (rule sorted_clave_arribo)
  have lleno: "(\<exists>x\<in>set ?xs. ?a x < ?t) \<longrightarrow> 4 \<le> ?g"
  proof
    assume "\<exists>x\<in>set ?xs. ?a x < ?t"
    then have "list_ex (\<lambda>r. t_arribo (proc s r) \<le> reloj s) (procesos_nuevos s)"
      by (auto simp: list_ex_iff ar1 r1 n1)
    with ll g1 show "4 \<le> ?g" by simp
  qed
  have pk: "pasan s1 = min (length ?deb) (5 - ?g)"
    using dos_bucles[OF sa lleno] by (simp add: pasan_def Let_def)
  have deb: "?deb = takeWhile (\<lambda>r. ?a r \<le> ?t) ?xs" by (rule sorted_takeWhile_filter[OF sa])
  have tk1: "take (pasan s1) ?xs = take (pasan s1) ?deb"
  proof -
    have "pasan s1 \<le> length (takeWhile (\<lambda>r. ?a r \<le> ?t) ?xs)" using pk deb by simp
    from take_takeWhile[OF this] show ?thesis by (simp add: deb)
  qed
  have kl: "pasan s1 \<le> length ?xs"
  proof -
    have "length ?deb \<le> length ?xs" by (rule length_filter_le)
    moreover have "pasan s1 \<le> length ?deb" unfolding pk by (rule min.cobounded1)
    ultimately show ?thesis by (rule order_trans[rotated])
  qed
  let ?s2 = "llegadas s1"
  have c23: "conserva ?s2 s3" by (rule intentar_admision_conserva[OF b])
  have c3': "conserva s3 s'" unfolding c by (rule conserva_planificador)
  have c2': "conserva ?s2 s'" using c23 c3' by (rule conserva_trans)
  have n': "procesos_nuevos s' = drop (pasan s1) (procesos_nuevos s)"
    using c2' by (simp add: conserva_def llegadas_colas n1)
  have g': "gdm_actual s' = ?g + pasan s1"
    using gdm_conserva[OF c2'] kl by (simp add: gdm_llegadas min_def)
  have r': "reloj s' = reloj s + 1"
    using c2' by (simp add: conserva_def llegadas_colas r1)
  have f': "fijos (proc s' q) = fijos (proc s1 q)" for q
    using conserva_fijos[OF c2', of q] by (simp add: fijos_llegadas)
  have ca': "clave_arribo (todos_procesos s') = clave_arribo (todos_procesos s1)"
    by (rule clave_arribo_fijos) (rule f')
  have ar': "t_arribo (proc s' q) = ?a q" for q
    using fijos_arribo[OF f'[of q]] by simp
  have so': "sorted (map (clave_arribo (todos_procesos s')) (procesos_nuevos s'))"
  proof -
    have "sorted (drop (pasan s1) (map (clave_arribo (todos_procesos s1)) ?xs))"
      using so1 by (rule sorted_wrt_drop)
    then show ?thesis by (simp add: ca' n' n1 drop_map)
  qed
  have ll': "list_ex (\<lambda>r. t_arribo (proc s' r) \<le> reloj s') (procesos_nuevos s') \<longrightarrow> 5 \<le> gdm_actual s'"
  proof
    assume "list_ex (\<lambda>r. t_arribo (proc s' r) \<le> reloj s') (procesos_nuevos s')"
    then obtain x where x: "x \<in> set (drop (pasan s1) ?xs)" "?a x \<le> ?t"
      by (auto simp: list_ex_iff ar' r' r1 n' n1)
    have "pasan s1 \<noteq> length ?deb"
    proof
      assume "pasan s1 = length ?deb"
      with x(1) have "x \<in> set (drop (length (takeWhile (\<lambda>r. ?a r \<le> ?t) ?xs)) ?xs)"
        by (simp add: deb)
      from sorted_drop_takeWhile[OF sa this] x(2) show False by simp
    qed
    with pk have "pasan s1 = 5 - ?g" by (simp add: min_def split: if_splits)
    with g' show "5 \<le> gdm_actual s'" by simp
  qed
  have j': "espera_justificada s'"
    using r0 so' ll' by (simp add: espera_justificada_def r')
  have a': "servir_cpu (s\<lparr>reloj := reloj s + 1, eventos_del_tick := []\<rparr>) = Inr s1"
    using a by simp
  show ?thesis
    by (rule that[OF a' n1 r1 so1 pk tk1 n' g' r' j'])
qed

text \<open>Waiting is justified right after construction, and stays so.\<close>

lemma fijos_reiniciar [simp]: "fijos (reiniciar p) = fijos p"
  by (simp add: reiniciar_def fijos_def)

lemma fijos_preparar_colas:
  "fijos (proc (preparar_colas (estado_vacio procesos)) q) = fijos (procesos ! q)"
  by (simp add: preparar_colas_campos nth_reiniciar_todos)

lemma datos_arribos_iniciales [simp]: "datos (proc (arribos_iniciales ps s) q) = datos (proc s q)"
proof (induction ps arbitrary: s)
  case Nil
  show ?case by simp
next
  case (Cons p ps)
  have "datos (proc (modificar p (\<lambda>q. q\<lparr>estado := L_S\<rparr>) s) q) = datos (proc s q)" by simp
  then show ?case by (simp add: Cons.IH)
qed

lemma espera_justificada_inicial:
  assumes v: "\<forall>p\<in>set procesos. 0 \<le> t_arribo p" and c: "Simulador procesos = Inr s0"
  shows "espera_justificada s0"
proof -
  let ?s = "preparar_colas (estado_vacio procesos)"
  let ?P = "\<lambda>p. t_arribo (proc ?s p) = 0"
  from c have g: "guardar_estado_inicial ?s = Inr s0" by (simp add: Simulador_def)
  from g obtain s2 s3 where
    s2: "s2 = arribos_iniciales (takeWhile ?P (procesos_nuevos ?s))
            ((if takeWhile ?P (procesos_nuevos ?s) \<noteq> []
              then evento_nuevo (Arriban (takeWhile ?P (procesos_nuevos ?s)))
              else (\<lambda>x. x))
             (?s\<lparr>procesos_nuevos := dropWhile ?P (procesos_nuevos ?s)\<rparr>))"
    and b: "intentar_admision s2 = Inr s3" and d: "s0 = ejecutar_planificador s3"
    by (rule guardar_estado_inicial_etapas)
  have c0: "conserva s2 s0"
    using intentar_admision_conserva[OF b] conserva_planificador[of s3] unfolding d
    by (rule conserva_trans)
  have n2: "procesos_nuevos s2 = dropWhile ?P (seleccion procesos)"
    unfolding s2 by (simp add: preparar_colas_campos)
  have r2: "reloj s2 = 0" unfolding s2 by (simp add: preparar_colas_campos)
  have d2: "datos (proc s2 q) = datos (proc ?s q)" for q unfolding s2 by simp
  have f0: "fijos (proc s0 q) = fijos (procesos ! q)" for q
  proof -
    have "fijos (proc s0 q) = fijos (proc s2 q)" by (rule conserva_fijos[OF c0])
    also have "\<dots> = fijos (proc ?s q)" by (rule fijos_datos[OF d2])
    also have "\<dots> = fijos (procesos ! q)" by (rule fijos_preparar_colas)
    finally show ?thesis .
  qed
  have fs: "fijos (proc ?s q) = fijos (procesos ! q)" for q by (rule fijos_preparar_colas)
  have ca: "clave_arribo (todos_procesos s0) = clave_arribo procesos"
    by (rule clave_arribo_fijos) (rule f0)
  have ar0: "t_arribo (proc s0 q) = t_arribo (procesos ! q)" for q
    using fijos_arribo[OF f0[of q]] by simp
  have ars: "t_arribo (proc ?s q) = t_arribo (procesos ! q)" for q
    using fijos_arribo[OF fs[of q]] by simp
  let ?Q = "\<lambda>p. t_arribo (procesos ! p) = 0"
  have c0n: "procesos_nuevos s0 = procesos_nuevos s2" and c0r: "reloj s0 = reloj s2"
    using c0 unfolding conserva_def by blast+
  have PQ: "?P = ?Q" by (simp add: fun_eq_iff ars)
  have n0: "procesos_nuevos s0 = dropWhile ?Q (seleccion procesos)"
    unfolding c0n n2 PQ ..
  have r0: "reloj s0 = 0" unfolding c0r r2 ..
  note sp = seleccion_propiedades[of procesos]
  have so: "sorted (map (clave_arribo procesos) (dropWhile ?Q (seleccion procesos)))"
  proof -
    have "sorted_wrt (\<lambda>x y. clave_arribo procesos x \<le> clave_arribo procesos y) (seleccion procesos)"
      using sp by (simp add: sorted_map)
    then have "sorted_wrt (\<lambda>x y. clave_arribo procesos x \<le> clave_arribo procesos y)
        (dropWhile ?Q (seleccion procesos))"
      by (rule sorted_wrt_dropWhile)
    then show ?thesis by (simp add: sorted_map)
  qed
  have pos: "0 < t_arribo (procesos ! x)" if x: "x \<in> set (dropWhile ?Q (seleccion procesos))" for x
  proof -
    obtain y ys where yy: "dropWhile ?Q (seleccion procesos) = y # ys"
      using x by (cases "dropWhile ?Q (seleccion procesos)") auto
    have ny: "t_arribo (procesos ! y) \<noteq> 0"
      using hd_dropWhile[of ?Q "seleccion procesos"] by (simp add: yy)
    have "y \<in> set (dropWhile ?Q (seleccion procesos))" by (simp add: yy)
    then have "y \<in> set (seleccion procesos)" by (rule set_dropWhileD)
    with sp have "y < length procesos" by auto
    then have "procesos ! y \<in> set procesos" by simp
    with v have "0 \<le> t_arribo (procesos ! y)" by blast
    with ny have py: "0 < t_arribo (procesos ! y)" by simp
    have "sorted (map (\<lambda>r. t_arribo (procesos ! r)) (y # ys))"
      using so unfolding yy by (rule sorted_clave_arribo)
    with x yy have "t_arribo (procesos ! y) \<le> t_arribo (procesos ! x)" by auto
    with py show ?thesis by simp
  qed
  have "\<not> list_ex (\<lambda>r. t_arribo (proc s0 r) \<le> reloj s0) (procesos_nuevos s0)"
  proof
    assume "list_ex (\<lambda>r. t_arribo (proc s0 r) \<le> reloj s0) (procesos_nuevos s0)"
    then obtain x where "x \<in> set (dropWhile ?Q (seleccion procesos))" "t_arribo (procesos ! x) \<le> 0"
      unfolding list_ex_iff ar0 r0 n0 by blast
    with pos[of x] show False by simp
  qed
  then show ?thesis
    using so by (simp add: espera_justificada_def r0 ca n0)
qed

lemma espera_justificada_correr:
  "espera_justificada s \<Longrightarrow> correr n s = Inr s' \<Longrightarrow> espera_justificada s'"
proof (induction n arbitrary: s)
  case 0
  then show ?case by simp
next
  case (Suc n)
  from Suc.prems(2) obtain t where t: "siguiente_tick s = Inr t" and c: "correr n t = Inr s'"
    by (auto split: sum.splits)
  from Suc.prems(1) t have "espera_justificada t" by (rule tick_arribos)
  from Suc.IH[OF this c] show ?case .
qed

lemma espera_justificada_simular:
  assumes "\<forall>p\<in>set procesos. 0 \<le> t_arribo p" "simular procesos n = Inr s"
  shows "espera_justificada s"
proof -
  from assms(2) obtain s0 where s0: "Simulador procesos = Inr s0" and c: "correr n s0 = Inr s"
    by (auto simp: simular_def split: sum.splits)
  from espera_justificada_inicial[OF assms(1) s0] c show ?thesis
    by (rule espera_justificada_correr)
qed

text \<open>
  C3: take any state reached from processes with non-negative arrival times, and a tick
  from it.  After the CPU stage (state \<open>s1\<close>, clock advanced by one) the queue of new
  processes is in ascending order of \<open>(t_arribo, id_proceso)\<close>, and the arrival stage moves
  to the suspended queue exactly its first \<open>pasan s1\<close> entries, which are the first
  \<open>pasan s1\<close> of the due processes (those with \<open>t_arribo \<le> reloj\<close>), where \<open>pasan s1\<close> is
  the number of due processes or the number of free system slots \<open>5 - gdm_actual s1\<close>,
  whichever is smaller: a due process enters exactly when the count stays within 5, an
  earlier one is never passed over for a later one, and the rest stay in the queue of
  new processes that the next tick starts from.
\<close>

theorem admision_de_arribos:
  assumes "\<forall>p\<in>set procesos. 0 \<le> t_arribo p"
    and "simular procesos n = Inr s" and "siguiente_tick s = Inr s'"
  shows "\<exists>s1. servir_cpu (s\<lparr>reloj := reloj s + 1, eventos_del_tick := []\<rparr>) = Inr s1 \<and>
           procesos_nuevos s1 = procesos_nuevos s \<and> reloj s1 = reloj s + 1 \<and>
           sorted (map (clave_arribo (todos_procesos s1)) (procesos_nuevos s1)) \<and>
           pasan s1 = min (length (filter (\<lambda>r. t_arribo (proc s1 r) \<le> reloj s1) (procesos_nuevos s1)))
                          (5 - gdm_actual s1) \<and>
           take (pasan s1) (procesos_nuevos s1) =
             take (pasan s1) (filter (\<lambda>r. t_arribo (proc s1 r) \<le> reloj s1) (procesos_nuevos s1)) \<and>
           cola_listos_suspendidos (llegadas s1) =
             cola_listos_suspendidos s1 @ take (pasan s1) (procesos_nuevos s1) \<and>
           procesos_nuevos (llegadas s1) = drop (pasan s1) (procesos_nuevos s1) \<and>
           procesos_nuevos s' = drop (pasan s1) (procesos_nuevos s) \<and>
           gdm_actual s' = gdm_actual s1 + pasan s1 \<and> reloj s' = reloj s + 1"
proof -
  have j: "espera_justificada s" using assms(1,2) by (rule espera_justificada_simular)
  from j assms(3) show ?thesis
  proof (rule tick_arribos)
    fix s1
    assume "servir_cpu (s\<lparr>reloj := reloj s + 1, eventos_del_tick := []\<rparr>) = Inr s1"
      "procesos_nuevos s1 = procesos_nuevos s" "reloj s1 = reloj s + 1"
      "sorted (map (clave_arribo (todos_procesos s1)) (procesos_nuevos s1))"
      "pasan s1 = min (length (filter (\<lambda>r. t_arribo (proc s1 r) \<le> reloj s1) (procesos_nuevos s1)))
                    (5 - gdm_actual s1)"
      "take (pasan s1) (procesos_nuevos s1) =
         take (pasan s1) (filter (\<lambda>r. t_arribo (proc s1 r) \<le> reloj s1) (procesos_nuevos s1))"
      "procesos_nuevos s' = drop (pasan s1) (procesos_nuevos s)"
      "gdm_actual s' = gdm_actual s1 + pasan s1" "reloj s' = reloj s + 1"
    then show ?thesis using llegadas_colas[of s1] by blast
  qed
qed

lemma simular_cohorte_swap: "simular cohorte_swap 0 = Inr (projr (simular cohorte_swap 0))"
  by code_simp

lemma tick_cohorte_swap:
  "siguiente_tick (projr (simular cohorte_swap 0)) =
     Inr (projr (siguiente_tick (projr (simular cohorte_swap 0))))"
  by code_simp

theorem admision_de_arribos_witness:
  "list_all (\<lambda>p. 0 \<le> t_arribo p) cohorte_swap \<and>
   simular cohorte_swap 0 = Inr (projr (simular cohorte_swap 0)) \<and>
   siguiente_tick (projr (simular cohorte_swap 0)) =
     Inr (projr (siguiente_tick (projr (simular cohorte_swap 0)))) \<and>
   procesos_nuevos (projr (simular cohorte_swap 0)) = [3] \<and>
   procesos_nuevos (projr (siguiente_tick (projr (simular cohorte_swap 0)))) = [] \<and>
   reloj (projr (siguiente_tick (projr (simular cohorte_swap 0)))) =
     reloj (projr (simular cohorte_swap 0)) + 1"
proof -
  have v: "\<forall>p\<in>set cohorte_swap. 0 \<le> t_arribo p" by (simp add: cohorte_swap_def Proceso_def)
  have a: "procesos_nuevos (projr (simular cohorte_swap 0)) = [3]"
    "procesos_nuevos (projr (siguiente_tick (projr (simular cohorte_swap 0)))) = []"
    by code_simp+
  from admision_de_arribos[OF v simular_cohorte_swap tick_cohorte_swap]
  have "reloj (projr (siguiente_tick (projr (simular cohorte_swap 0)))) =
     reloj (projr (simular cohorte_swap 0)) + 1" by blast
  with v a simular_cohorte_swap tick_cohorte_swap show ?thesis by (simp add: list_all_iff)
qed

section \<open>Well-formed states\<close>

text \<open>
  Every memory-resident process records a partition that exists, is not the reserved
  one and records that process as its occupant; partitions are numbered by position; no
  process is in two queues or twice in one; every queued process is one of the objects
  handed to the constructor; suspended processes are in state \<open>L/S\<close>; and no process that
  has not terminated has a finish time.
\<close>

definition residentes_ok :: "simulador \<Rightarrow> bool" where
  "residentes_ok s \<longleftrightarrow>
     (\<forall>v\<in>set (posibles_victimas s). \<exists>k.
        id_particion (proc s v) = Some k \<and> k < length (particiones s) \<and>
        \<not> es_so (particiones s ! k) \<and> proceso_asignado (particiones s ! k) = Some v)"

definition ids_ok :: "simulador \<Rightarrow> bool" where
  "ids_ok s \<longleftrightarrow> (\<forall>k<length (particiones s). id_part (particiones s ! k) = k)"

definition sin_repetir :: "simulador \<Rightarrow> bool" where
  "sin_repetir s \<longleftrightarrow>
     distinct (procesos_nuevos s @ cola_listos_suspendidos s @ posibles_victimas s @
               procesos_terminados s)"

definition refs_ok :: "simulador \<Rightarrow> bool" where
  "refs_ok s \<longleftrightarrow> (\<forall>r\<in>#en_colas s. r < length (todos_procesos s))"

definition suspendidos_ok :: "simulador \<Rightarrow> bool" where
  "suspendidos_ok s \<longleftrightarrow> (\<forall>r\<in>set (cola_listos_suspendidos s). estado (proc s r) = L_S)"

definition sin_fin :: "simulador \<Rightarrow> bool" where
  "sin_fin s \<longleftrightarrow>
     (\<forall>r\<in>set (procesos_nuevos s @ cola_listos_suspendidos s @ posibles_victimas s).
        t_fin (proc s r) = - 1)"

definition bien_formado :: "simulador \<Rightarrow> bool" where
  "bien_formado s \<longleftrightarrow>
     residentes_ok s \<and> ids_ok s \<and> sin_repetir s \<and> refs_ok s \<and> suspendidos_ok s \<and> sin_fin s"

lemma distinct_count_le_1: "distinct xs \<longleftrightarrow> (\<forall>a. count (mset xs) a \<le> 1)"
proof
  assume "distinct xs"
  then show "\<forall>a. count (mset xs) a \<le> 1" by (simp add: distinct_count_atmost_1)
next
  assume a: "\<forall>a. count (mset xs) a \<le> 1"
  have "count (mset xs) x = (if x \<in> set xs then 1 else 0)" for x
  proof (cases "x \<in> set xs")
    case True
    then have "0 < count (mset xs) x" by simp
    moreover have "count (mset xs) x \<le> 1" using a by blast
    ultimately have "count (mset xs) x = 1" by linarith
    with True show ?thesis by simp
  next
    case False
    then show ?thesis by (simp add: count_mset_0_iff)
  qed
  then show "distinct xs" by (simp add: distinct_count_atmost_1)
qed

lemma sin_repetir_en_colas: "sin_repetir s \<longleftrightarrow> (\<forall>r. count (en_colas s) r \<le> 1)"
proof -
  have "mset (procesos_nuevos s @ cola_listos_suspendidos s @ posibles_victimas s @
               procesos_terminados s) = en_colas s"
    by (simp add: en_colas_def)
  then show ?thesis
    unfolding sin_repetir_def distinct_count_le_1 by simp
qed

lemma sin_repetir_conserva: "en_colas s' = en_colas s \<Longrightarrow> sin_repetir s' = sin_repetir s"
  by (simp add: sin_repetir_en_colas)

lemma refs_ok_conserva:
  "en_colas s' = en_colas s \<Longrightarrow> length (todos_procesos s') = length (todos_procesos s) \<Longrightarrow>
   refs_ok s' = refs_ok s"
  by (simp add: refs_ok_def)

text \<open>What a placement and a swap do to the processes and the partitions.\<close>

lemma particiones_liberar:
  "particiones (liberar_particion k s) =
     (particiones s)[k := (particiones s ! k)\<lparr>proceso_asignado := None\<rparr>]"
  by (simp add: liberar_particion_def Let_def split: option.splits)

lemma proc_liberar:
  "proc (liberar_particion k s) q =
     (case proceso_asignado (particiones s ! k) of
        None \<Rightarrow> proc s q
      | Some r \<Rightarrow> if r = q \<and> r < length (todos_procesos s)
                  then (proc s q)\<lparr>id_particion := None\<rparr> else proc s q)"
  by (simp add: liberar_particion_def Let_def proc_modificar split: option.splits)

lemma particiones_asignar:
  "particiones (asignar_proceso k c s) =
     (if esta_libre (particiones s ! k) \<and> tamano (proc s c) \<le> tamano_part (particiones s ! k)
      then (particiones s)[k := (particiones s ! k)\<lparr>proceso_asignado := Some c\<rparr>]
      else particiones s)"
  by (simp add: asignar_proceso_def Let_def)

lemma proc_asignar:
  "proc (asignar_proceso k c s) q =
     (if esta_libre (particiones s ! k) \<and> tamano (proc s c) \<le> tamano_part (particiones s ! k) \<and>
         c = q \<and> c < length (todos_procesos s)
      then (proc s q)\<lparr>id_particion := Some (id_part (particiones s ! k))\<rparr>
      else proc s q)"
  by (auto simp: asignar_proceso_def Let_def proc_modificar)

lemma admitir_efecto:
  assumes "k < length (particiones s)" "esta_libre (particiones s ! k)"
    "tamano (proc s c) \<le> tamano_part (particiones s ! k)" "c < length (todos_procesos s)"
  shows "particiones (admitir c k s) =
           (particiones s)[k := (particiones s ! k)\<lparr>proceso_asignado := Some c\<rparr>]"
    and "proc (admitir c k s) q =
           (if q = c
            then (proc s c)\<lparr>id_particion := Some (id_part (particiones s ! k)), estado := LISTO,
                             t_llegada_listo := reloj s\<rparr>
            else proc s q)"
  using assms
  by (auto simp: admitir_def Let_def particiones_asignar proc_asignar proc_modificar)

lemma ejecutar_swap_efecto:
  assumes "id_particion (proc s v) = Some k" "k < length (particiones s)"
    "\<not> es_so (particiones s ! k)" "proceso_asignado (particiones s ! k) = Some v"
    "tamano (proc s c) \<le> tamano_part (particiones s ! k)"
    "c \<noteq> v" "c < length (todos_procesos s)" "v < length (todos_procesos s)"
  shows "particiones (ejecutar_swap c v k s) =
           (particiones s)[k := (particiones s ! k)\<lparr>proceso_asignado := Some c\<rparr>]"
    and "proc (ejecutar_swap c v k s) q =
           (if q = c
            then (proc s c)\<lparr>id_particion := Some (id_part (particiones s ! k)), estado := LISTO,
                             t_llegada_listo := reloj s\<rparr>
            else if q = v then (proc s v)\<lparr>estado := L_S, id_particion := None\<rparr>
            else proc s q)"
proof -
  define s1 where "s1 = (if proceso_en_ejecucion s = Some v
                then s\<lparr>proceso_en_ejecucion := None\<rparr>
                else s\<lparr>cola_listos := remove1 v (cola_listos s)\<rparr>)"
  define s2 where "s2 = modificar v (\<lambda>q. q\<lparr>estado := L_S, id_particion := None\<rparr>) s1"
  define s3 where "s3 = liberar_particion k s2"
  define s5 where "s5 = s3\<lparr>cola_listos_suspendidos := remove1 c (cola_listos_suspendidos s3 @ [v])\<rparr>"
  define s6 where "s6 = asignar_proceso k c s5"
  define s7 where "s7 = modificar c (\<lambda>q. q\<lparr>estado := LISTO, t_llegada_listo := reloj s6\<rparr>) s6"
  have e: "ejecutar_swap c v k s = evento_nuevo (Swap v c k) (s7\<lparr>cola_listos := cola_listos s7 @ [c]\<rparr>)"
    by (simp add: ejecutar_swap_def Let_def s1_def s2_def s3_def s5_def s6_def s7_def)
  have p1: "particiones s1 = particiones s" "todos_procesos s1 = todos_procesos s" "reloj s1 = reloj s"
    by (simp_all add: s1_def)
  have p2: "particiones s2 = particiones s" "length (todos_procesos s2) = length (todos_procesos s)"
    "reloj s2 = reloj s"
    "proc s2 q = (if q = v then (proc s v)\<lparr>estado := L_S, id_particion := None\<rparr> else proc s q)" for q
    using assms(8) by (auto simp: s2_def p1 proc_modificar)
  have p3: "particiones s3 = (particiones s)[k := (particiones s ! k)\<lparr>proceso_asignado := None\<rparr>]"
    "length (todos_procesos s3) = length (todos_procesos s)" "reloj s3 = reloj s"
    "proc s3 q = (if q = v then (proc s v)\<lparr>estado := L_S, id_particion := None\<rparr> else proc s q)" for q
    using assms(4,8) by (auto simp: s3_def particiones_liberar proc_liberar p2)
  have p5: "particiones s5 = particiones s3" "todos_procesos s5 = todos_procesos s3" "reloj s5 = reloj s"
    by (simp_all add: s5_def p3)
  have libre: "esta_libre (particiones s5 ! k)"
    using assms(2,3) by (simp add: p5 p3 esta_libre_def)
  have cabe: "tamano (proc s5 c) \<le> tamano_part (particiones s5 ! k)"
    using assms(2,5,6) by (simp add: p5 p3)
  have idk: "id_part (particiones s5 ! k) = id_part (particiones s ! k)"
    using assms(2) by (simp add: p5 p3)
  have p6: "particiones s6 = (particiones s)[k := (particiones s ! k)\<lparr>proceso_asignado := Some c\<rparr>]"
    "length (todos_procesos s6) = length (todos_procesos s)" "reloj s6 = reloj s"
    using libre cabe assms(2) by (simp_all add: s6_def particiones_asignar p5 p3)
  have q6: "proc s6 q = (if q = c then (proc s c)\<lparr>id_particion := Some (id_part (particiones s ! k))\<rparr>
                 else if q = v then (proc s v)\<lparr>estado := L_S, id_particion := None\<rparr> else proc s q)" for q
    using libre cabe assms(6,7) idk by (simp add: s6_def proc_asignar p5 p3)
  show "particiones (ejecutar_swap c v k s) =
           (particiones s)[k := (particiones s ! k)\<lparr>proceso_asignado := Some c\<rparr>]"
    by (simp add: e s7_def p6)
  show "proc (ejecutar_swap c v k s) q =
           (if q = c
            then (proc s c)\<lparr>id_particion := Some (id_part (particiones s ! k)), estado := LISTO,
                             t_llegada_listo := reloj s\<rparr>
            else if q = v then (proc s v)\<lparr>estado := L_S, id_particion := None\<rparr>
            else proc s q)"
    using assms(7) by (simp add: e s7_def proc_modificar p6 q6)
qed

text \<open>A placement keeps a state well formed.\<close>

lemma bien_formado_admitir:
  assumes wf: "bien_formado s" and c: "c \<in> set (cola_listos_suspendidos s)"
    and m: "encontrar_mejor_particion s c (libres s) = Some k"
  shows "bien_formado (admitir c k s)"
proof -
  let ?s' = "admitir c k s"
  from wf have ro: "residentes_ok s" and io: "ids_ok s" and sr: "sin_repetir s" and rf: "refs_ok s"
    and so: "suspendidos_ok s" and sf: "sin_fin s" by (simp_all add: bien_formado_def)
  from encontrar_mejor_particion_Some[OF m]
  have k: "k < length (particiones s)" "esta_libre (particiones s ! k)"
    "tamano (proc s c) \<le> tamano_part (particiones s ! k)" by (simp_all add: set_libres)
  have cl: "c < length (todos_procesos s)"
    using rf c by (simp add: refs_ok_def en_colas_def)
  note ef = admitir_efecto[OF k cl]
  have cons: "conserva s ?s'" by (rule conserva_admitir[OF c])
  then have ec: "en_colas ?s' = en_colas s" and len: "length (todos_procesos ?s') = length (todos_procesos s)"
    by (simp_all add: conserva_def)
  have cnp: "c \<notin> set (posibles_victimas s)" and cnn: "c \<notin> set (procesos_nuevos s)"
    and dls: "distinct (cola_listos_suspendidos s)"
    using sr c by (auto simp: sin_repetir_def)
  have idk: "id_part (particiones s ! k) = k" using io k(1) by (simp add: ids_ok_def)
  have 1: "residentes_ok ?s'"
    unfolding residentes_ok_def
  proof
    fix v assume "v \<in> set (posibles_victimas ?s')"
    then have "v = c \<or> v \<in> set (posibles_victimas s)"
      by (auto simp: posibles_victimas_def split: option.splits)
    then show "\<exists>j. id_particion (proc ?s' v) = Some j \<and> j < length (particiones ?s') \<and>
        \<not> es_so (particiones ?s' ! j) \<and> proceso_asignado (particiones ?s' ! j) = Some v"
    proof
      assume "v = c"
      then show ?thesis using k idk by (intro exI[of _ k]) (simp add: ef esta_libre_def)
    next
      assume v: "v \<in> set (posibles_victimas s)"
      with cnp have vc: "v \<noteq> c" by auto
      from ro v obtain j where j: "id_particion (proc s v) = Some j" "j < length (particiones s)"
        "\<not> es_so (particiones s ! j)" "proceso_asignado (particiones s ! j) = Some v"
        unfolding residentes_ok_def by blast
      have "j \<noteq> k" using j(4) k(2) by (auto simp: esta_libre_def)
      then show ?thesis using vc j by (intro exI[of _ j]) (simp add: ef)
    qed
  qed
  have 2: "ids_ok ?s'" using io k(1) by (auto simp: ids_ok_def ef nth_actualizado)
  have 3: "sin_repetir ?s'" using sr by (simp add: sin_repetir_conserva[OF ec])
  have 4: "refs_ok ?s'" using rf by (simp add: refs_ok_conserva[OF ec len])
  have 5: "suspendidos_ok ?s'"
    unfolding suspendidos_ok_def
  proof
    fix r assume "r \<in> set (cola_listos_suspendidos ?s')"
    then have "r \<in> set (cola_listos_suspendidos s)" "r \<noteq> c" using dls by auto
    then show "estado (proc ?s' r) = L_S" using so by (simp add: ef suspendidos_ok_def)
  qed
  have 6: "sin_fin ?s'"
    unfolding sin_fin_def
  proof
    fix r assume "r \<in> set (procesos_nuevos ?s' @ cola_listos_suspendidos ?s' @ posibles_victimas ?s')"
    then have "r = c \<or> r \<in> set (procesos_nuevos s @ cola_listos_suspendidos s @ posibles_victimas s)"
      by (auto simp: posibles_victimas_def split: option.splits dest: notin_set_remove1)
    moreover have "t_fin (proc s c) = - 1" using sf c by (simp add: sin_fin_def)
    ultimately show "t_fin (proc ?s' r) = - 1" using sf by (auto simp: ef sin_fin_def)
  qed
  from 1 2 3 4 5 6 show ?thesis by (simp add: bien_formado_def)
qed

text \<open>A swap keeps a state well formed.\<close>

lemma bien_formado_ejecutar_swap:
  assumes wf: "bien_formado s" and c: "c \<in> set (cola_listos_suspendidos s)"
    and v: "v \<in> set (posibles_victimas s)" and pk: "particion_de s v = Inr k"
    and cabe: "tamano (proc s c) \<le> tamano_part (particiones s ! k)"
  shows "bien_formado (ejecutar_swap c v k s)"
proof -
  let ?s' = "ejecutar_swap c v k s"
  from wf have ro: "residentes_ok s" and io: "ids_ok s" and sr: "sin_repetir s" and rf: "refs_ok s"
    and so: "suspendidos_ok s" and sf: "sin_fin s" by (simp_all add: bien_formado_def)
  from pk have kk: "id_particion (proc s v) = Some k" "k < length (particiones s)"
    by (simp_all add: particion_de_Inr)
  from ro v kk(1) have kv: "\<not> es_so (particiones s ! k)" "proceso_asignado (particiones s ! k) = Some v"
    unfolding residentes_ok_def by fastforce+
  have cl: "c < length (todos_procesos s)" and vl: "v < length (todos_procesos s)"
    using rf c v by (simp_all add: refs_ok_def en_colas_def)
  have cv: "c \<noteq> v" and cnp: "c \<notin> set (posibles_victimas s)"
    and vnl: "v \<notin> set (cola_listos_suspendidos s)"
    and dls: "distinct (cola_listos_suspendidos s)" and dp: "distinct (posibles_victimas s)"
    using sr c v by (auto simp: sin_repetir_def)
  note ef = ejecutar_swap_efecto[OF kk(1) kk(2) kv cabe cv cl vl]
  have cons: "conserva s ?s'" by (rule conserva_ejecutar_swap[OF c v])
  then have ec: "en_colas ?s' = en_colas s" and len: "length (todos_procesos ?s') = length (todos_procesos s)"
    and nn: "procesos_nuevos ?s' = procesos_nuevos s"
    by (simp_all add: conserva_def)
  have idk: "id_part (particiones s ! k) = k" using io kk(2) by (simp add: ids_ok_def)
  have pos: "set (posibles_victimas ?s') = insert c (set (posibles_victimas s) - {v})"
  proof -
    have "set_mset (mset (posibles_victimas ?s')) = set_mset (mset (posibles_victimas s) - {#v#} + {#c#})"
      by (simp only: posibles_swap[OF v])
    also have "\<dots> = set_mset (mset (remove1 v (posibles_victimas s)) + {#c#})"
      by (simp only: mset_remove1)
    also have "\<dots> = insert c (set (posibles_victimas s) - {v})"
      using dp by (simp add: set_remove1_eq del: mset_remove1)
    finally show ?thesis by simp
  qed
  have "distinct (cola_listos_suspendidos s @ [v])" using dls vnl by simp
  then have lss: "set (remove1 c (cola_listos_suspendidos s @ [v])) = insert v (set (cola_listos_suspendidos s) - {c})"
    using cv by (auto simp only: set_remove1_eq set_append list.set)
  have 1: "residentes_ok ?s'"
    unfolding residentes_ok_def
  proof
    fix w assume "w \<in> set (posibles_victimas ?s')"
    then have "w = c \<or> (w \<in> set (posibles_victimas s) \<and> w \<noteq> v)" by (auto simp: pos)
    then show "\<exists>j. id_particion (proc ?s' w) = Some j \<and> j < length (particiones ?s') \<and>
        \<not> es_so (particiones ?s' ! j) \<and> proceso_asignado (particiones ?s' ! j) = Some w"
    proof
      assume "w = c"
      then show ?thesis using kk kv idk by (intro exI[of _ k]) (simp add: ef)
    next
      assume w: "w \<in> set (posibles_victimas s) \<and> w \<noteq> v"
      with cnp have wc: "w \<noteq> c" by auto
      from ro w obtain j where j: "id_particion (proc s w) = Some j" "j < length (particiones s)"
        "\<not> es_so (particiones s ! j)" "proceso_asignado (particiones s ! j) = Some w"
        unfolding residentes_ok_def by blast
      have "j \<noteq> k" using j(4) kv(2) w by auto
      then show ?thesis using wc w j by (intro exI[of _ j]) (simp add: ef)
    qed
  qed
  have 2: "ids_ok ?s'" using io kk(2) by (auto simp: ids_ok_def ef nth_actualizado)
  have 3: "sin_repetir ?s'" using sr by (simp add: sin_repetir_conserva[OF ec])
  have 4: "refs_ok ?s'" using rf by (simp add: refs_ok_conserva[OF ec len])
  have 5: "suspendidos_ok ?s'"
    unfolding suspendidos_ok_def
  proof
    fix r assume "r \<in> set (cola_listos_suspendidos ?s')"
    then have "r = v \<or> (r \<in> set (cola_listos_suspendidos s) \<and> r \<noteq> c)" by (auto simp: lss)
    then show "estado (proc ?s' r) = L_S"
      using so cv by (auto simp: ef suspendidos_ok_def)
  qed
  have 6: "sin_fin ?s'"
    unfolding sin_fin_def
  proof
    fix r assume "r \<in> set (procesos_nuevos ?s' @ cola_listos_suspendidos ?s' @ posibles_victimas ?s')"
    then have "r \<in> set (procesos_nuevos s @ cola_listos_suspendidos s @ posibles_victimas s)"
      using c v by (auto simp: nn lss pos)
    moreover have "t_fin (proc s c) = - 1" "t_fin (proc s v) = - 1"
      using sf c v by (simp_all add: sin_fin_def)
    ultimately show "t_fin (proc ?s' r) = - 1" using sf by (auto simp: ef sin_fin_def)
  qed
  from 1 2 3 4 5 6 show ?thesis by (simp add: bien_formado_def)
qed

text \<open>The admission loop on a well-formed state: it raises nothing and keeps the state well formed.\<close>

lemma posibles_ordenar [simp]: "posibles_victimas (ordenar_ls s) = posibles_victimas s"
  by (simp add: posibles_victimas_def ordenar_ls_def)

lemma ordenar_ls_campos [simp]:
  "todos_procesos (ordenar_ls s) = todos_procesos s"
  "particiones (ordenar_ls s) = particiones s"
  "procesos_nuevos (ordenar_ls s) = procesos_nuevos s"
  "procesos_terminados (ordenar_ls s) = procesos_terminados s"
  "cola_listos (ordenar_ls s) = cola_listos s"
  "proceso_en_ejecucion (ordenar_ls s) = proceso_en_ejecucion s"
  "reloj (ordenar_ls s) = reloj s"
  "set (cola_listos_suspendidos (ordenar_ls s)) = set (cola_listos_suspendidos s)"
  by (simp_all add: ordenar_ls_def)

lemma bien_formado_ordenar_ls: "bien_formado s \<Longrightarrow> bien_formado (ordenar_ls s)"
proof -
  assume wf: "bien_formado s"
  have ec: "en_colas (ordenar_ls s) = en_colas s" using conserva_ordenar_ls[of s] by (simp add: conserva_def)
  have "sin_repetir (ordenar_ls s) = sin_repetir s" by (rule sin_repetir_conserva[OF ec])
  moreover have "refs_ok (ordenar_ls s) = refs_ok s" by (rule refs_ok_conserva[OF ec]) simp
  ultimately show ?thesis
    using wf by (simp add: bien_formado_def residentes_ok_def ids_ok_def suspendidos_ok_def sin_fin_def)
qed

lemma victimas_validas_sin_error:
  assumes "\<forall>v\<in>set xs. \<exists>k. particion_de s v = Inr k"
  shows "\<exists>ws. victimas_validas s c xs = Inr ws"
  using assms by (induction xs) auto

lemma residentes_particion:
  "residentes_ok s \<Longrightarrow> v \<in> set (posibles_victimas s) \<Longrightarrow> \<exists>k. particion_de s v = Inr k"
  unfolding residentes_ok_def particion_de_Inr by blast

lemma pase_sin_error:
  assumes "residentes_ok s"
  shows "\<exists>x. pase s cs = Inr x"
proof (induction cs)
  case Nil
  show ?case by simp
next
  case (Cons c cs)
  from assms have "\<forall>v\<in>set (posibles_victimas s). \<exists>k. particion_de s v = Inr k"
    by (blast intro: residentes_particion)
  from victimas_validas_sin_error[OF this] obtain ws where
    ws: "victimas_validas s c (posibles_victimas s) = Inr ws" by blast
  show ?case
  proof (cases ws)
    case Nil
    with ws Cons.IH show ?thesis by (auto split: option.splits)
  next
    case (Cons v vs)
    have "max_key (clave_ls s) v vs \<in> set ws" unfolding Cons by (rule max_key_in)
    with victimas_validas_subset[OF ws] have "max_key (clave_ls s) v vs \<in> set (posibles_victimas s)" by blast
    from residentes_particion[OF assms this] obtain k where
      "particion_de s (max_key (clave_ls s) v vs) = Inr k" by blast
    with ws Cons Cons.IH show ?thesis by (auto simp: Let_def split: option.splits)
  qed
qed

lemma pase_Intercambiado_cabe:
  assumes "pase s cs = Inr (Some (Intercambiado v c k, s'))"
  shows "tamano (proc s c) \<le> tamano_part (particiones s ! k)"
proof -
  from pase_Intercambiado[OF assms] obtain v0 vs where
    vv: "victimas_validas s c (posibles_victimas s) = Inr (v0 # vs)"
    and v: "v = max_key (clave_ls s) v0 vs" and pk: "particion_de s v = Inr k" by blast
  let ?ok = "\<lambda>v. \<exists>j. particion_de s v = Inr j \<and> tamano (proc s c) \<le> tamano_part (particiones s ! j)"
  have "v \<in> set (v0 # vs)" unfolding v by (rule max_key_in)
  moreover have "v0 # vs = filter ?ok (posibles_victimas s)"
    using victimas_validas_todas[OF vv] by blast
  ultimately have "v \<in> set (filter ?ok (posibles_victimas s))" by simp
  then have "?ok v" by simp
  with pk show ?thesis by simp
qed

lemma pase_bien_formado:
  assumes "pase s cs = Inr (Some (ch, s'))" "set cs \<subseteq> set (cola_listos_suspendidos s)"
    "bien_formado s"
  shows "bien_formado s'"
proof (cases ch)
  case (Colocado c k)
  from pase_Colocado[OF assms(1)[unfolded Colocado]] assms(2,3) show ?thesis
    by (auto intro: bien_formado_admitir)
next
  case (Intercambiado v c k)
  note p = assms(1)[unfolded Intercambiado]
  from pase_Intercambiado[OF p] have c: "c \<in> set cs" and s': "s' = ejecutar_swap c v k s"
    and pk: "particion_de s v = Inr k" by simp_all
  from c assms(2) have cl: "c \<in> set (cola_listos_suspendidos s)" by blast
  show ?thesis unfolding s'
    by (rule bien_formado_ejecutar_swap[OF assms(3) cl pase_victima_residente[OF p] pk
          pase_Intercambiado_cabe[OF p]])
qed

lemma intentar_admision_bien_formado:
  "bien_formado s \<Longrightarrow> \<exists>s'. intentar_admision s = Inr s' \<and> bien_formado s'"
proof (induction s rule: intentar_admision.induct)
  case (1 s)
  let ?o = "ordenar_ls s"
  have wo: "bien_formado ?o" using 1(2) by (rule bien_formado_ordenar_ls)
  then have "residentes_ok ?o" by (simp add: bien_formado_def)
  from pase_sin_error[OF this] obtain x where x: "pase ?o (cola_listos_suspendidos ?o) = Inr x"
    by blast
  show ?case
  proof (cases x)
    case None
    with x wo show ?thesis by (simp add: intentar_admision.simps[of s])
  next
    case (Some a)
    obtain ch s2 where a: "a = (ch, s2)" by (cases a)
    have "bien_formado s2"
      using x Some a wo by (intro pase_bien_formado[of ?o "cola_listos_suspendidos ?o" ch s2]) simp_all
    from 1(1)[OF x Some a[symmetric] this] obtain s' where
      "intentar_admision s2 = Inr s'" "bien_formado s'" by blast
    then show ?thesis using x Some a by (simp add: intentar_admision.simps[of s])
  qed
qed

text \<open>
  The scheduler only touches memory-resident processes, and of those neither the
  partition nor the finish time.
\<close>

definition solo_residentes :: "simulador \<Rightarrow> simulador \<Rightarrow> bool" where
  "solo_residentes s s' \<longleftrightarrow>
     particiones s' = particiones s \<and>
     cola_listos_suspendidos s' = cola_listos_suspendidos s \<and>
     (\<forall>q. id_particion (proc s' q) = id_particion (proc s q) \<and>
          t_fin (proc s' q) = t_fin (proc s q) \<and>
          (q \<notin> set (posibles_victimas s) \<longrightarrow> proc s' q = proc s q))"

lemma conserva_posibles:
  assumes "conserva s s'" "cola_listos_suspendidos s' = cola_listos_suspendidos s"
  shows "mset (posibles_victimas s') = mset (posibles_victimas s)"
proof -
  from assms(1) have "en_colas s' = en_colas s" "procesos_nuevos s' = procesos_nuevos s"
    "procesos_terminados s' = procesos_terminados s" by (simp_all add: conserva_def)
  with assms(2) show ?thesis by (simp add: en_colas_def)
qed

lemma bien_formado_solo_residentes:
  assumes c: "conserva s s'" and r: "solo_residentes s s'" and wf: "bien_formado s"
  shows "bien_formado s'"
proof -
  from wf have ro: "residentes_ok s" and io: "ids_ok s" and sr: "sin_repetir s" and rf: "refs_ok s"
    and so: "suspendidos_ok s" and sf: "sin_fin s" by (simp_all add: bien_formado_def)
  from r have pa: "particiones s' = particiones s"
    and ls: "cola_listos_suspendidos s' = cola_listos_suspendidos s"
    and ip: "\<And>q. id_particion (proc s' q) = id_particion (proc s q)"
    and tf: "\<And>q. t_fin (proc s' q) = t_fin (proc s q)"
    and ot: "\<And>q. q \<notin> set (posibles_victimas s) \<Longrightarrow> proc s' q = proc s q"
    by (simp_all add: solo_residentes_def)
  from c have ec: "en_colas s' = en_colas s" and len: "length (todos_procesos s') = length (todos_procesos s)"
    and nn: "procesos_nuevos s' = procesos_nuevos s"
    by (simp_all add: conserva_def)
  have "set_mset (mset (posibles_victimas s')) = set_mset (mset (posibles_victimas s))"
    by (simp only: conserva_posibles[OF c ls])
  then have ps: "set (posibles_victimas s') = set (posibles_victimas s)" by simp
  have 1: "residentes_ok s'" using ro by (simp add: residentes_ok_def ps pa ip)
  have 2: "ids_ok s'" using io by (simp add: ids_ok_def pa)
  have 3: "sin_repetir s'" using sr by (simp add: sin_repetir_conserva[OF ec])
  have 4: "refs_ok s'" using rf by (simp add: refs_ok_conserva[OF ec len])
  have 5: "suspendidos_ok s'"
    unfolding suspendidos_ok_def
  proof
    fix q assume "q \<in> set (cola_listos_suspendidos s')"
    then have q: "q \<in> set (cola_listos_suspendidos s)" by (simp add: ls)
    with sr have "q \<notin> set (posibles_victimas s)" by (auto simp: sin_repetir_def)
    from ot[OF this] q so show "estado (proc s' q) = L_S" by (simp add: suspendidos_ok_def)
  qed
  have 6: "sin_fin s'" using sf by (simp add: sin_fin_def nn ls ps tf)
  from 1 2 3 4 5 6 show ?thesis by (simp add: bien_formado_def)
qed

lemma proc_a_cpu:
  "id_particion (proc (a_cpu r s) q) = id_particion (proc s q)"
  "t_fin (proc (a_cpu r s) q) = t_fin (proc s q)"
  "q \<noteq> r \<Longrightarrow> proc (a_cpu r s) q = proc s q"
  by (simp_all add: a_cpu_def Let_def proc_modificar)

lemma proc_a_cpu_forma:
  "proc (a_cpu r s) q =
     (if q = r \<and> r < length (todos_procesos s)
      then (proc s r)\<lparr>estado := EJECUCION,
                       t_primera_ejecucion :=
                         (if t_primera_ejecucion (proc s r) = - 1 then reloj s
                          else t_primera_ejecucion (proc s r))\<rparr>
      else proc s q)"
  by (auto simp: a_cpu_def Let_def proc_modificar)

lemma hd_in_set_sort: "xs \<noteq> [] \<Longrightarrow> hd (sort_key f xs) \<in> set xs"
  by (metis hd_in_set set_sort sort_key_no_vacia)

lemma solo_residentes_planificador: "solo_residentes s (ejecutar_planificador s)"
proof (cases "cola_listos s = []")
  case True
  then show ?thesis
    by (simp add: ejecutar_planificador_def encontrar_proceso_srtf_def solo_residentes_def
        split: option.splits)
next
  case False
  define s1 where "s1 = s\<lparr>cola_listos := sort_key (clave_srtf s) (cola_listos s)\<rparr>"
  define c where "c = hd (cola_listos s1)"
  have enc: "encontrar_proceso_srtf s = (s1, Some c)"
    using False by (simp add: encontrar_proceso_srtf_def s1_def c_def Let_def)
  have cin: "c \<in> set (posibles_victimas s)"
    using hd_in_set_sort[OF False, of "clave_srtf s"] by (simp add: c_def s1_def posibles_victimas_def)
  show ?thesis
  proof (cases "proceso_en_ejecucion s1")
    case None
    define s2 where "s2 = s1\<lparr>cola_listos := tl (cola_listos s1), proceso_en_ejecucion := Some c\<rparr>"
    have p: "ejecutar_planificador s = evento_nuevo (Inicia c) (a_cpu c s2)"
      using None enc by (simp add: ejecutar_planificador_def Let_def s2_def c_def)
    show ?thesis
      using cin by (auto simp: p solo_residentes_def proc_a_cpu_forma s2_def s1_def)
  next
    case (Some run0)
    then have rin: "run0 \<in> set (posibles_victimas s)"
      by (simp add: s1_def posibles_victimas_def)
    show ?thesis
    proof (cases "debe_desalojar s1 c run0")
      case False
      have p: "ejecutar_planificador s = s1"
        using Some enc False by (simp add: ejecutar_planificador_def)
      show ?thesis by (simp add: p solo_residentes_def s1_def)
    next
      case True
      define s2 where "s2 = modificar run0 (\<lambda>q. q\<lparr>estado := LISTO, t_llegada_listo := reloj s1\<rparr>) s1"
      define s3 where "s3 = s2\<lparr>cola_listos := cola_listos s2 @ [run0]\<rparr>"
      define s4 where "s4 = s3\<lparr>cola_listos := sort_key (clave_srtf s3) (cola_listos s3)\<rparr>"
      define ent where "ent = hd (cola_listos s4)"
      define s5 where "s5 = s4\<lparr>cola_listos := tl (cola_listos s4)\<rparr>"
      have p: "ejecutar_planificador s =
          evento_nuevo (Desalojo run0 ent) ((a_cpu ent s5)\<lparr>proceso_en_ejecucion := Some ent\<rparr>)"
        using Some enc True
        by (simp add: ejecutar_planificador_def Let_def s2_def s3_def s4_def s5_def ent_def)
      have "cola_listos s3 \<noteq> []" by (simp add: s3_def)
      from hd_in_set_sort[OF this, of "clave_srtf s3"]
      have "ent \<in> set (cola_listos s) \<or> ent = run0"
        by (auto simp: ent_def s4_def s3_def s2_def s1_def)
      with rin have ein: "ent \<in> set (posibles_victimas s)" by (auto simp: posibles_victimas_def)
      have a: "proc s2 q = (if q = run0 \<and> run0 < length (todos_procesos s)
                  then (proc s q)\<lparr>estado := LISTO, t_llegada_listo := reloj s\<rparr> else proc s q)" for q
        by (auto simp: s2_def s1_def proc_modificar)
      have b: "todos_procesos s5 = todos_procesos s2" "particiones s5 = particiones s"
        "cola_listos_suspendidos s5 = cola_listos_suspendidos s"
        by (simp_all add: s5_def s4_def s3_def s2_def s1_def)
      show ?thesis
        unfolding solo_residentes_def p
        using ein rin by (auto simp: proc_a_cpu_forma b a)
    qed
  qed
qed

lemma bien_formado_planificador: "bien_formado s \<Longrightarrow> bien_formado (ejecutar_planificador s)"
  by (rule bien_formado_solo_residentes[OF conserva_planificador solo_residentes_planificador])

text \<open>The CPU stage on a well-formed state.\<close>

lemma servir_cpu_bien_formado:
  assumes wf: "bien_formado s"
  shows "\<exists>s'. servir_cpu s = Inr s' \<and> bien_formado s'"
proof (cases "proceso_en_ejecucion s")
  case None
  with wf show ?thesis by (simp add: servir_cpu_def)
next
  case (Some cur)
  from wf have ro: "residentes_ok s" and io: "ids_ok s" and sr: "sin_repetir s" and rf: "refs_ok s"
    and so: "suspendidos_ok s" and sf: "sin_fin s" by (simp_all add: bien_formado_def)
  have cp: "cur \<in> set (posibles_victimas s)" using Some by (simp add: posibles_victimas_def)
  have pv: "posibles_victimas s = cola_listos s @ [cur]" using Some by (simp add: posibles_victimas_def)
  from ro cp obtain k where k: "id_particion (proc s cur) = Some k" "k < length (particiones s)"
    "\<not> es_so (particiones s ! k)" "proceso_asignado (particiones s ! k) = Some cur"
    unfolding residentes_ok_def by blast
  have cl: "cur < length (todos_procesos s)" using rf cp by (simp add: refs_ok_def en_colas_def)
  have dis: "cur \<notin> set (cola_listos s)" "cur \<notin> set (cola_listos_suspendidos s)"
    "cur \<notin> set (procesos_nuevos s)"
    using sr by (auto simp: sin_repetir_def pv)
  define s1 where "s1 = modificar cur (\<lambda>q. q\<lparr>t_restante := t_restante q - 1\<rparr>) s"
  have p1: "proc s1 q = (if q = cur then (proc s cur)\<lparr>t_restante := t_restante (proc s cur) - 1\<rparr> else proc s q)" for q
    using cl by (auto simp: s1_def proc_modificar)
  show ?thesis
  proof (cases "t_restante (proc s1 cur) = 0")
    case False
    then have e: "servir_cpu s = Inr s1" using Some by (simp add: servir_cpu_def Let_def s1_def)
    have q: "posibles_victimas s1 = posibles_victimas s" by (simp add: s1_def posibles_victimas_def)
    have ec: "en_colas s1 = en_colas s" by (simp add: en_colas_def q) (simp add: s1_def)
    have "residentes_ok s1" using ro by (auto simp: residentes_ok_def q p1) (simp_all add: s1_def)
    moreover have "ids_ok s1" using io by (simp add: ids_ok_def s1_def)
    moreover have "sin_repetir s1" using sr by (simp add: sin_repetir_conserva[OF ec])
    moreover have "length (todos_procesos s1) = length (todos_procesos s)" by (simp add: s1_def)
    then have "refs_ok s1" using rf by (simp add: refs_ok_conserva[OF ec])
    moreover have "suspendidos_ok s1" using so by (auto simp: suspendidos_ok_def p1) (simp_all add: s1_def)
    moreover have "sin_fin s1" using sf by (auto simp: sin_fin_def q p1) (simp_all add: s1_def)
    ultimately show ?thesis using e by (simp add: bien_formado_def)
  next
    case True
    define s2 where "s2 = modificar cur (\<lambda>q. q\<lparr>estado := TERMINADO, t_fin := reloj s1 + 1\<rparr>) s1"
    define s3 where "s3 = s2\<lparr>procesos_terminados := procesos_terminados s2 @ [cur],
                         proceso_en_ejecucion := None\<rparr>"
    define s4 where "s4 = liberar_particion k s3"
    have p3: "proc s3 q = (if q = cur
         then (proc s cur)\<lparr>t_restante := t_restante (proc s cur) - 1, estado := TERMINADO, t_fin := reloj s + 1\<rparr>
         else proc s q)" for q
      using cl by (auto simp: s3_def s2_def proc_modificar p1) (simp_all add: s1_def)
    have f3: "particiones s3 = particiones s" "length (todos_procesos s3) = length (todos_procesos s)"
      "cola_listos s3 = cola_listos s" "cola_listos_suspendidos s3 = cola_listos_suspendidos s"
      "procesos_nuevos s3 = procesos_nuevos s" "proceso_en_ejecucion s3 = None"
      "procesos_terminados s3 = procesos_terminados s @ [cur]"
      by (simp_all add: s3_def s2_def s1_def)
    have pd: "particion_de s3 cur = Inr k" using k by (simp add: particion_de_Inr p3 f3)
    have e: "servir_cpu s = Inr (evento_nuevo (Termina cur k) s4)"
      using Some True pd
      by (simp add: servir_cpu_def Let_def s1_def[symmetric] s2_def[symmetric] s3_def[symmetric] s4_def)
    have p4: "proc s4 q = (if q = cur
         then (proc s cur)\<lparr>t_restante := t_restante (proc s cur) - 1, estado := TERMINADO,
                t_fin := reloj s + 1, id_particion := None\<rparr>
         else proc s q)" for q
      using cl k(4) by (simp add: s4_def proc_liberar f3 p3)
    have f4: "particiones s4 = (particiones s)[k := (particiones s ! k)\<lparr>proceso_asignado := None\<rparr>]"
      "length (todos_procesos s4) = length (todos_procesos s)"
      "cola_listos s4 = cola_listos s" "cola_listos_suspendidos s4 = cola_listos_suspendidos s"
      "procesos_nuevos s4 = procesos_nuevos s" "proceso_en_ejecucion s4 = None"
      "procesos_terminados s4 = procesos_terminados s @ [cur]"
      by (simp_all add: s4_def particiones_liberar f3)
    let ?s' = "evento_nuevo (Termina cur k) s4"
    have q: "posibles_victimas ?s' = cola_listos s" by (simp add: posibles_victimas_def f4)
    have ec: "en_colas ?s' = en_colas s" by (simp add: en_colas_def q f4 pv)
    have 1: "residentes_ok ?s'"
      unfolding residentes_ok_def
    proof
      fix v assume "v \<in> set (posibles_victimas ?s')"
      then have v: "v \<in> set (cola_listos s)" by (simp add: q)
      with dis have vc: "v \<noteq> cur" by auto
      from v have "v \<in> set (posibles_victimas s)" by (simp add: pv)
      with ro obtain j where j: "id_particion (proc s v) = Some j" "j < length (particiones s)"
        "\<not> es_so (particiones s ! j)" "proceso_asignado (particiones s ! j) = Some v"
        unfolding residentes_ok_def by blast
      have "j \<noteq> k" using j(4) k(4) vc by auto
      then show "\<exists>j. id_particion (proc ?s' v) = Some j \<and> j < length (particiones ?s') \<and>
          \<not> es_so (particiones ?s' ! j) \<and> proceso_asignado (particiones ?s' ! j) = Some v"
        using vc j by (intro exI[of _ j]) (simp add: p4 f4)
    qed
    have 2: "ids_ok ?s'" using io k(2) by (auto simp: ids_ok_def f4 nth_actualizado)
    have 3: "sin_repetir ?s'" using sr by (simp add: sin_repetir_conserva[OF ec])
    have 4: "refs_ok ?s'" using rf by (simp add: refs_ok_conserva[OF ec] f4)
    have 5: "suspendidos_ok ?s'" using so dis by (auto simp: suspendidos_ok_def f4 p4)
    have 6: "sin_fin ?s'" using sf dis by (auto simp: sin_fin_def q f4 p4 pv)
    from 1 2 3 4 5 6 e show ?thesis by (simp add: bien_formado_def)
  qed
qed

text \<open>The arrival stage on a well-formed state.\<close>

lemma proc_pasar_a_ls:
  "proc (pasar_a_ls ps s) q =
     (if q \<in> set ps \<and> q < length (todos_procesos s) then (proc s q)\<lparr>estado := L_S\<rparr> else proc s q)"
proof (induction ps arbitrary: s)
  case Nil
  show ?case by simp
next
  case (Cons p ps)
  show ?case by (auto simp: Cons.IH proc_modificar)
qed

lemma proc_llegadas:
  "proc (llegadas s) q =
     (if q \<in> set (take (pasan s) (procesos_nuevos s)) \<and> q < length (todos_procesos s)
      then (proc s q)\<lparr>estado := L_S\<rparr> else proc s q)"
proof -
  define j1 where "j1 = min (length (takeWhile (\<lambda>p. t_arribo (proc s p) = reloj s) (procesos_nuevos s)))
                 (5 - gdm_actual s)"
  define j2 where "j2 = min (length (takeWhile (\<lambda>p. t_arribo (proc s p) < reloj s)
                             (drop j1 (procesos_nuevos s))))
                  (5 - (gdm_actual s + j1))"
  have p: "pasan s = j1 + j2" by (simp add: pasan_def Let_def j1_def j2_def)
  have t: "take j1 (procesos_nuevos s) @ take j2 (drop j1 (procesos_nuevos s)) = take (j1 + j2) (procesos_nuevos s)"
    by (simp add: take_add)
  show ?thesis
    unfolding p t[symmetric]
    by (simp add: llegadas_def Let_def mientras_arriban_take j1_def[symmetric] j2_def[symmetric]
        proc_pasar_a_ls)
qed

lemma bien_formado_llegadas:
  assumes wf: "bien_formado s"
  shows "bien_formado (llegadas s)"
proof -
  let ?s' = "llegadas s"
  let ?a = "take (pasan s) (procesos_nuevos s)"
  from wf have ro: "residentes_ok s" and io: "ids_ok s" and sr: "sin_repetir s" and rf: "refs_ok s"
    and so: "suspendidos_ok s" and sf: "sin_fin s" by (simp_all add: bien_formado_def)
  note lc = llegadas_colas[of s]
  have pv: "posibles_victimas ?s' = posibles_victimas s" by (simp add: posibles_victimas_def lc)
  have ec: "en_colas ?s' = en_colas s" by (rule en_colas_llegadas)
  have an: "set ?a \<subseteq> set (procesos_nuevos s)" by (rule set_take_subset)
  have dn: "set (drop (pasan s) (procesos_nuevos s)) \<subseteq> set (procesos_nuevos s)" by (rule set_drop_subset)
  have al: "r < length (todos_procesos s)" if "r \<in> set ?a" for r
    using rf an that by (auto simp: refs_ok_def en_colas_def)
  have 1: "residentes_ok ?s'" using ro by (auto simp: residentes_ok_def pv lc proc_llegadas)
  have 2: "ids_ok ?s'" using io by (simp add: ids_ok_def lc)
  have 3: "sin_repetir ?s'" using sr by (simp add: sin_repetir_conserva[OF ec])
  have 4: "refs_ok ?s'" using rf by (simp add: refs_ok_conserva[OF ec] lc)
  have 5: "suspendidos_ok ?s'"
    using so al by (auto simp: suspendidos_ok_def lc proc_llegadas)
  have 6: "sin_fin ?s'"
    using sf an dn by (auto simp: sin_fin_def pv lc proc_llegadas)
  from 1 2 3 4 5 6 show ?thesis by (simp add: bien_formado_def)
qed

text \<open>A tick of a well-formed state returns a well-formed state.\<close>

lemma bien_formado_reloj [simp]: "bien_formado (s\<lparr>reloj := t\<rparr>) = bien_formado s"
  by (simp add: bien_formado_def residentes_ok_def ids_ok_def sin_repetir_def refs_ok_def
      suspendidos_ok_def sin_fin_def posibles_victimas_def en_colas_def)

lemma bien_formado_eventos [simp]: "bien_formado (s\<lparr>eventos_del_tick := es\<rparr>) = bien_formado s"
  by (simp add: bien_formado_def residentes_ok_def ids_ok_def sin_repetir_def refs_ok_def
      suspendidos_ok_def sin_fin_def posibles_victimas_def en_colas_def)

lemma tick_bien_formado:
  assumes "bien_formado s"
  shows "\<exists>s'. tick s = Inr s' \<and> bien_formado s'"
proof -
  have "bien_formado (s\<lparr>eventos_del_tick := []\<rparr>)" using assms by simp
  from servir_cpu_bien_formado[OF this] obtain s1 where
    a: "servir_cpu (s\<lparr>eventos_del_tick := []\<rparr>) = Inr s1" and w1: "bien_formado s1" by blast
  from intentar_admision_bien_formado[OF bien_formado_llegadas[OF w1]] obtain s3 where
    b: "intentar_admision (llegadas s1) = Inr s3" and w3: "bien_formado s3" by blast
  from a b bien_formado_planificador[OF w3] show ?thesis by (simp add: tick_def)
qed

lemma siguiente_tick_bien_formado:
  "bien_formado s \<Longrightarrow> \<exists>s'. siguiente_tick s = Inr s' \<and> bien_formado s'"
  unfolding siguiente_tick_def by (rule tick_bien_formado) simp

lemma correr_bien_formado:
  "bien_formado s \<Longrightarrow> \<exists>s'. correr n s = Inr s' \<and> bien_formado s'"
proof (induction n arbitrary: s)
  case 0
  then show ?case by simp
next
  case (Suc n)
  from siguiente_tick_bien_formado[OF Suc.prems] obtain t where
    t: "siguiente_tick s = Inr t" "bien_formado t" by blast
  from Suc.IH[OF t(2)] t(1) show ?case by simp
qed

text \<open>Construction returns a well-formed state, so every run of the engine returns.\<close>

lemma bien_formado_preparar_colas: "bien_formado (preparar_colas (estado_vacio procesos))"
proof -
  let ?s = "preparar_colas (estado_vacio procesos)"
  note sp = seleccion_propiedades[of procesos]
  note pc = preparar_colas_campos[of procesos]
  have pv: "posibles_victimas ?s = []" by (simp add: posibles_victimas_def pc)
  have 1: "residentes_ok ?s" by (simp add: residentes_ok_def pv)
  have pa: "particiones ?s = [Particion 0 100 True 0, Particion 1 250 False 100,
                     Particion 2 150 False 350, Particion 3 50 False 500]"
    unfolding pc by (simp add: estado_vacio_def)
  have 2: "ids_ok ?s"
    unfolding ids_ok_def pa
  proof (intro allI impI)
    fix k :: nat
    assume "k < length [Particion 0 100 True 0, Particion 1 250 False 100,
                     Particion 2 150 False 350, Particion 3 50 False 500]"
    then have "k = 0 \<or> k = 1 \<or> k = 2 \<or> k = 3" by auto
    then show "id_part ([Particion 0 100 True 0, Particion 1 250 False 100,
                     Particion 2 150 False 350, Particion 3 50 False 500] ! k) = k"
      by (auto simp: Particion_def)
  qed
  have 3: "sin_repetir ?s" using sp by (simp add: sin_repetir_def pv pc)
  have 4: "refs_ok ?s" using sp by (auto simp: refs_ok_def en_colas_def pv pc)
  have 5: "suspendidos_ok ?s" by (simp add: suspendidos_ok_def pc)
  have 6: "sin_fin ?s" using sp by (auto simp: sin_fin_def pv pc nth_reiniciar_todos reiniciar_def)
  from 1 2 3 4 5 6 show ?thesis by (simp add: bien_formado_def)
qed

lemma proc_arribos_iniciales:
  "proc (arribos_iniciales ps s) q =
     (if q \<in> set ps \<and> q < length (todos_procesos s) then (proc s q)\<lparr>estado := L_S\<rparr> else proc s q)"
proof (induction ps arbitrary: s)
  case Nil
  show ?case by simp
next
  case (Cons p ps)
  show ?case by (auto simp: Cons.IH proc_modificar)
qed

lemma bien_formado_evento [simp]: "bien_formado (evento_nuevo e s) = bien_formado s"
  by (simp add: evento_nuevo_def)

lemma bien_formado_arribos_iniciales:
  assumes wf: "bien_formado (t\<lparr>procesos_nuevos := a @ procesos_nuevos t\<rparr>)"
  shows "bien_formado (arribos_iniciales a t)"
proof -
  let ?s = "t\<lparr>procesos_nuevos := a @ procesos_nuevos t\<rparr>"
  let ?s' = "arribos_iniciales a t"
  from wf have ro: "residentes_ok ?s" and io: "ids_ok ?s" and sr: "sin_repetir ?s" and rf: "refs_ok ?s"
    and so: "suspendidos_ok ?s" and sf: "sin_fin ?s" by (simp_all add: bien_formado_def)
  have pv: "posibles_victimas ?s' = posibles_victimas t" "posibles_victimas ?s = posibles_victimas t"
    by (simp_all add: posibles_victimas_def)
  have ec: "en_colas ?s' = en_colas ?s"
    by (simp add: en_colas_def pv add.assoc add.left_commute)
  have al: "r < length (todos_procesos t)" if "r \<in> set a" for r
    using rf that by (auto simp: refs_ok_def en_colas_def)
  have 1: "residentes_ok ?s'" using ro by (auto simp: residentes_ok_def pv proc_arribos_iniciales)
  have 2: "ids_ok ?s'" using io by (simp add: ids_ok_def)
  have 3: "sin_repetir ?s'" using sr by (simp add: sin_repetir_conserva[OF ec])
  have 4: "refs_ok ?s'" using rf by (simp add: refs_ok_conserva[OF ec])
  have 5: "suspendidos_ok ?s'"
    using so al by (auto simp: suspendidos_ok_def proc_arribos_iniciales)
  have 6: "sin_fin ?s'"
    using sf by (auto simp: sin_fin_def pv proc_arribos_iniciales)
  from 1 2 3 4 5 6 show ?thesis by (simp add: bien_formado_def)
qed

lemma guardar_estado_inicial_bien_formado:
  assumes wf: "bien_formado s"
  shows "\<exists>s'. guardar_estado_inicial s = Inr s' \<and> bien_formado s'"
proof -
  let ?a = "takeWhile (\<lambda>p. t_arribo (proc s p) = 0) (procesos_nuevos s)"
  let ?d = "dropWhile (\<lambda>p. t_arribo (proc s p) = 0) (procesos_nuevos s)"
  let ?s1 = "s\<lparr>procesos_nuevos := ?d\<rparr>"
  define s2 where "s2 = (if ?a \<noteq> [] then evento_nuevo (Arriban ?a) ?s1 else ?s1)"
  have ad: "s\<lparr>procesos_nuevos := ?a @ ?d\<rparr> = s" by simp
  have "bien_formado (s2\<lparr>procesos_nuevos := ?a @ procesos_nuevos s2\<rparr>)"
  proof (cases "?a = []")
    case True
    then have "s2\<lparr>procesos_nuevos := ?a @ procesos_nuevos s2\<rparr> = s\<lparr>procesos_nuevos := ?a @ ?d\<rparr>"
      by (simp add: s2_def)
    with wf show ?thesis by (simp only: ad)
  next
    case False
    then have "s2\<lparr>procesos_nuevos := ?a @ procesos_nuevos s2\<rparr> =
        evento_nuevo (Arriban ?a) (s\<lparr>procesos_nuevos := ?a @ ?d\<rparr>)"
      by (simp add: s2_def evento_nuevo_def)
    with wf show ?thesis by (simp only: ad bien_formado_evento)
  qed
  from intentar_admision_bien_formado[OF bien_formado_arribos_iniciales[OF this]]
  obtain s3 where b: "intentar_admision (arribos_iniciales ?a s2) = Inr s3" and w3: "bien_formado s3"
    by blast
  from b bien_formado_planificador[OF w3] show ?thesis
    by (simp add: guardar_estado_inicial_def Let_def s2_def)
qed

lemma simular_bien_formado: "\<exists>s. simular procesos n = Inr s \<and> bien_formado s"
proof -
  from guardar_estado_inicial_bien_formado[OF bien_formado_preparar_colas[of procesos]]
  obtain s0 where s0: "Simulador procesos = Inr s0" "bien_formado s0"
    by (auto simp: Simulador_def)
  from correr_bien_formado[OF s0(2), of n] s0(1) show ?thesis by (simp add: simular_def)
qed

end
